theory Spec2Isabelle
  imports Complex_Main
begin

section \<open>Astron: the simulation and collision core of \<^verbatim>\<open>Scripts/game.js\<close>\<close>

text \<open>
  The script keeps its whole state in globals (the canvas, \<^verbatim>\<open>isGameOver\<close>, the key
  flags, three entity arrays and the player) and changes it from callbacks: the animation
  frame, three interval timers and two key listeners. The embedding passes that state
  explicitly as one record and turns every callback into a function on it.

  JavaScript numbers are modelled as real numbers: coordinates, velocities, radii and
  angles as \<open>real\<close>, the two counters \<^verbatim>\<open>lives\<close> and \<^verbatim>\<open>score\<close>, which the script only
  sets to literals, decrements or increases by 10, as \<open>int\<close>. The friction step
  \<^verbatim>\<open>velocity *= FRICTION\<close> multiplies a number again and again by a factor below 1, and
  what the sequence of velocities does in the long run is decided by the rounding of IEEE
  binary64; that step is modelled with the rounding (to nearest, ties to even), and
  \<^verbatim>\<open>FRICTION\<close> is the binary64 number that the literal \<^verbatim>\<open>0.99\<close> denotes. The other
  arithmetic (the additions to positions, velocities and angles, the distances, the fading
  of particles) is exact in the model; infinities and NaN are outside it. \<^verbatim>\<open>Math.random()\<close>
  reads from an explicit stream of numbers that is part of the state. The \<^verbatim>\<open>draw\<close> methods
  and \<^verbatim>\<open>drawUI\<close> only issue canvas commands and read the state, so they do not appear.
\<close>

subsection \<open>Data\<close>

record vec =
  x :: real
  y :: real

text \<open>\<^verbatim>\<open>canvas.width\<close> and \<^verbatim>\<open>canvas.height\<close> are unsigned integers in the DOM.\<close>

record canvas =
  width :: nat
  height :: nat

text \<open>
  The four classes share field names; the records extend one another so that
  \<open>position\<close>, \<open>velocity\<close> and \<open>radius\<close> read every entity that has the field.
\<close>

record entity =
  position :: vec
  velocity :: vec

record player = entity +
  rotation :: real
  lives :: int
  score :: int
  bestScore :: int
  isThrusting :: bool

record circle = entity +
  radius :: real

type_synonym projectile = circle

record asteroid = circle +
  sides :: int
  offsets :: "real list"

record particle = circle +
  alpha :: real

record keys =
  w :: bool
  a :: bool
  d :: bool

type_synonym random_source = "nat \<Rightarrow> real"

text \<open>
  Besides the script's globals the state holds what the script keeps in the browser:
  the pending \<^verbatim>\<open>requestAnimationFrame\<close> callbacks, the \<^verbatim>\<open>gameOverDiv\<close> elements appended
  to the document (each with the number its \<^verbatim>\<open>countdown\<close> span shows) and the running
  countdown intervals (each with its own closure variable \<^verbatim>\<open>countdown\<close>).
\<close>

record game =
  canvas :: canvas
  isGameOver :: bool
  level :: nat
  keys :: keys
  projectiles :: "projectile list"
  asteroids :: "asteroid list"
  particles :: "particle list"
  player :: player
  rand :: random_source
  frameRequests :: nat
  gameOverDivs :: "int list"
  countdowns :: "int list"

subsection \<open>Rounding to IEEE binary64\<close>

text \<open>
  Rounding a real number to the nearest integer, a tie going to the even one; and rounding
  a real number to the nearest binary64 number, a tie going to the one with the even
  significand. A number of magnitude \<open>m\<close> with \<open>2 powi e \<le> m < 2 powi (e + 1)\<close> is
  rounded to a multiple of \<open>2 powi (e - 52)\<close>; below \<open>2 powi (- 1022)\<close> the numbers are
  subnormal and the spacing stays \<open>2 powi (- 1074)\<close>. The sign is kept apart, as in the
  format. Overflow to infinity is outside the model: the exponent has no upper bound here.
\<close>

definition round_half_even :: "real \<Rightarrow> int" where
  "round_half_even q =
     (let f = \<lfloor>q\<rfloor>; r = q - of_int f
      in if r < 1 / 2 then f else if r > 1 / 2 then f + 1 else if even f then f else f + 1)"

definition binary64_exponent :: "real \<Rightarrow> int" where
  "binary64_exponent m = max (- 1022) \<lfloor>log 2 m\<rfloor>"

definition binary64_ulp :: "real \<Rightarrow> real" where
  "binary64_ulp m = 2 powi (binary64_exponent m - 52)"

definition binary64_round :: "real \<Rightarrow> real" where
  "binary64_round v =
     (if v = 0 then 0
      else sgn v * (binary64_ulp \<bar>v\<bar> * of_int (round_half_even (\<bar>v\<bar> / binary64_ulp \<bar>v\<bar>))))"

subsection \<open>Constants\<close>

text \<open>\<^verbatim>\<open>const FRICTION = 0.99\<close>: the literal denotes the binary64 number nearest to 0.99.\<close>

definition FRICTION :: real where
  "FRICTION = binary64_round (99 / 100)"

definition SHIP_ROTATION_SPEED :: real where
  "SHIP_ROTATION_SPEED = 1 / 10"

definition SHIP_THRUST :: real where
  "SHIP_THRUST = 1 / 10"

definition PROJECTILE_SPEED :: real where
  "PROJECTILE_SPEED = 5"

definition ASTEROID_SPAWN_RATE :: nat where
  "ASTEROID_SPAWN_RATE = 4000"

subsection \<open>Library functions of the host\<close>

definition Math_random :: "random_source \<Rightarrow> real \<times> random_source" where
  "Math_random g = (g 0, \<lambda>n. g (Suc n))"

definition Math_hypot :: "real \<Rightarrow> real \<Rightarrow> real" where
  "Math_hypot dx dy = sqrt (dx\<^sup>2 + dy\<^sup>2)"

text \<open>\<^verbatim>\<open>array.splice(i, 1)\<close>: the element at index \<open>i\<close> is removed, if there is one.\<close>

definition splice1 :: "nat \<Rightarrow> 'a list \<Rightarrow> 'a list" where
  "splice1 i xs = take i xs @ drop (Suc i) xs"

subsection \<open>The classes\<close>

definition new_Player :: "canvas \<Rightarrow> player" where
  "new_Player cv =
     \<lparr>position = \<lparr>x = real (width cv) / 2, y = real (height cv) / 2\<rparr>,
      velocity = \<lparr>x = 0, y = 0\<rparr>,
      rotation = 0, lives = 3, score = 0, bestScore = 0, isThrusting = False\<rparr>"

definition Player_update :: "canvas \<Rightarrow> player \<Rightarrow> player" where
  "Player_update cv p =
     (let p1 = \<lparr>x = x (position p) + x (velocity p), y = y (position p) + y (velocity p)\<rparr>;
          p2 = (if x p1 > real (width cv) then p1\<lparr>x := 0\<rparr> else p1);
          p3 = (if x p2 < 0 then p2\<lparr>x := real (width cv)\<rparr> else p2);
          p4 = (if y p3 > real (height cv) then p3\<lparr>y := 0\<rparr> else p3);
          p5 = (if y p4 < 0 then p4\<lparr>y := real (height cv)\<rparr> else p4)
      in p\<lparr>position := p5,
           velocity := \<lparr>x = binary64_round (x (velocity p) * FRICTION),
                         y = binary64_round (y (velocity p) * FRICTION)\<rparr>\<rparr>)"

definition new_Projectile :: "vec \<Rightarrow> real \<Rightarrow> projectile" where
  "new_Projectile pos rot =
     \<lparr>position = \<lparr>x = x pos, y = y pos\<rparr>,
      velocity = \<lparr>x = cos rot * PROJECTILE_SPEED, y = sin rot * PROJECTILE_SPEED\<rparr>,
      radius = 3\<rparr>"

definition Projectile_update :: "projectile \<Rightarrow> projectile" where
  "Projectile_update p =
     p\<lparr>position := \<lparr>x = x (position p) + x (velocity p), y = y (position p) + y (velocity p)\<rparr>\<rparr>"

text \<open>\<^verbatim>\<open>Array.from({ length: sides }, () => Math.random() * 10 - 5)\<close>\<close>

fun random_offsets :: "nat \<Rightarrow> random_source \<Rightarrow> real list \<times> random_source" where
  "random_offsets 0 g = ([], g)"
| "random_offsets (Suc n) g =
     (let (r, g1) = Math_random g;
          (rest, g2) = random_offsets n g1
      in ((r * 10 - 5) # rest, g2))"

definition new_Asteroid :: "vec \<Rightarrow> real \<Rightarrow> random_source \<Rightarrow> asteroid \<times> random_source" where
  "new_Asteroid pos r g =
     (let (r1, g1) = Math_random g;
          sd = \<lfloor>r1 * 6\<rfloor> + 5;
          (r2, g2) = Math_random g1;
          (r3, g3) = Math_random g2;
          (offs, g4) = random_offsets (nat sd) g3
      in (\<lparr>position = pos, velocity = \<lparr>x = r2 - 1 / 2, y = r3 - 1 / 2\<rparr>,
           radius = r, sides = sd, offsets = offs\<rparr>, g4))"

definition Asteroid_update :: "canvas \<Rightarrow> asteroid \<Rightarrow> asteroid" where
  "Asteroid_update cv ast =
     (let p1 = \<lparr>x = x (position ast) + x (velocity ast), y = y (position ast) + y (velocity ast)\<rparr>;
          p2 = (if x p1 > real (width cv) then p1\<lparr>x := 0\<rparr> else p1);
          p3 = (if x p2 < 0 then p2\<lparr>x := real (width cv)\<rparr> else p2);
          p4 = (if y p3 > real (height cv) then p3\<lparr>y := 0\<rparr> else p3);
          p5 = (if y p4 < 0 then p4\<lparr>y := real (height cv)\<rparr> else p4)
      in ast\<lparr>position := p5\<rparr>)"

definition new_Particle :: "vec \<Rightarrow> vec \<Rightarrow> random_source \<Rightarrow> particle \<times> random_source" where
  "new_Particle pos vel g =
     (let (r, g1) = Math_random g
      in (\<lparr>position = \<lparr>x = x pos, y = y pos\<rparr>, velocity = vel,
           radius = r * 2 + 1, alpha = 1\<rparr>, g1))"

definition Particle_update :: "particle \<Rightarrow> particle" where
  "Particle_update p =
     p\<lparr>position := \<lparr>x = x (position p) + x (velocity p), y = y (position p) + y (velocity p)\<rparr>,
       alpha := alpha p - 1 / 100\<rparr>"

subsection \<open>The spawner\<close>

definition spawnAsteroid :: "game \<Rightarrow> game" where
  "spawnAsteroid s =
     (let cw = real (width (canvas s));
          ch = real (height (canvas s));
          (r0, g1) = Math_random (rand s);
          edge = \<lfloor>r0 * 4\<rfloor>;
          (r, g2) = Math_random g1;
          pos = (if edge = 0 then \<lparr>x = r * cw, y = - 40\<rparr>
                 else if edge = 1 then \<lparr>x = cw + 40, y = r * ch\<rparr>
                 else if edge = 2 then \<lparr>x = r * cw, y = ch + 40\<rparr>
                 else \<lparr>x = - 40, y = r * ch\<rparr>);
          velocityX = (cw / 2 - x pos) * (2 / 1000);
          velocityY = (ch / 2 - y pos) * (2 / 1000);
          (asteroid, g3) = new_Asteroid pos 40 g2
      in s\<lparr>asteroids := asteroids s @ [asteroid\<lparr>velocity := \<lparr>x = velocityX, y = velocityY\<rparr>\<rparr>],
           rand := g3\<rparr>)"

text \<open>The callback of \<^verbatim>\<open>setInterval(..., ASTEROID_SPAWN_RATE)\<close>.\<close>

definition spawnInterval :: "game \<Rightarrow> game" where
  "spawnInterval s = (if \<not> isGameOver s then spawnAsteroid s else s)"

subsection \<open>Explosions\<close>

fun createExplosion :: "vec \<Rightarrow> nat \<Rightarrow> game \<Rightarrow> game" where
  "createExplosion pos 0 s = s"
| "createExplosion pos (Suc n) s =
     (let (r1, g1) = Math_random (rand s);
          angle = r1 * pi * 2;
          (r2, g2) = Math_random g1;
          speed = r2 * 2;
          (particle, g3) = new_Particle pos \<lparr>x = cos angle * speed, y = sin angle * speed\<rparr> g2
      in createExplosion pos n (s\<lparr>particles := particles s @ [particle], rand := g3\<rparr>))"

subsection \<open>Game over, countdown and restart\<close>

definition startCountdown :: "game \<Rightarrow> game" where
  "startCountdown s = s\<lparr>countdowns := countdowns s @ [3]\<rparr>"

definition showGameOverUI :: "game \<Rightarrow> game" where
  "showGameOverUI s = startCountdown (s\<lparr>gameOverDivs := gameOverDivs s @ [3]\<rparr>)"

subsection \<open>Collision detection\<close>

text \<open>
  The body of the first loop of \<^verbatim>\<open>checkCollisions\<close>, at index \<open>i\<close>, and the loop, which
  runs \<open>i\<close> from \<^verbatim>\<open>asteroids.length - 1\<close> down to 0 (the counter of \<open>playerAsteroid_loop\<close>
  is \<open>i + 1\<close>).
\<close>

definition playerAsteroid_body :: "nat \<Rightarrow> game \<Rightarrow> game" where
  "playerAsteroid_body i s =
     (let asteroid = asteroids s ! i;
          dist = Math_hypot (x (position (player s)) - x (position asteroid))
                            (y (position (player s)) - y (position asteroid))
      in if dist < radius asteroid + 15 then
           (let s1 = s\<lparr>player := (player s)\<lparr>lives := lives (player s) - 1\<rparr>\<rparr>;
                s2 = (if lives (player s1) \<le> 0
                      then showGameOverUI
                             (s1\<lparr>isGameOver := True, player := (player s1)\<lparr>lives := 0\<rparr>\<rparr>)
                      else s1);
                s3 = createExplosion (position (player s2)) 20 s2
            in s3\<lparr>asteroids := splice1 i (asteroids s3)\<rparr>)
         else s)"

fun playerAsteroid_loop :: "nat \<Rightarrow> game \<Rightarrow> game" where
  "playerAsteroid_loop 0 s = s"
| "playerAsteroid_loop (Suc i) s = playerAsteroid_loop i (playerAsteroid_body i s)"

text \<open>The branch taken when a projectile hits an asteroid, up to the \<^verbatim>\<open>break\<close>.\<close>

definition projectileAsteroid_hit :: "nat \<Rightarrow> nat \<Rightarrow> projectile \<Rightarrow> asteroid \<Rightarrow> game \<Rightarrow> game" where
  "projectileAsteroid_hit pIndex aIndex projectile asteroid s =
     (let s1 = s\<lparr>projectiles := splice1 pIndex (projectiles s)\<rparr>;
          s2 = s1\<lparr>player := (player s1)\<lparr>score := score (player s1) + 10\<rparr>\<rparr>;
          s3 = (if radius asteroid > 15 then
                  (let (c1, g1) = new_Asteroid \<lparr>x = x (position asteroid), y = y (position asteroid)\<rparr>
                                    (radius asteroid / 2) (rand s2);
                       (c2, g2) = new_Asteroid \<lparr>x = x (position asteroid), y = y (position asteroid)\<rparr>
                                    (radius asteroid / 2) g1
                   in s2\<lparr>asteroids := (asteroids s2 @ [c1]) @ [c2], rand := g2\<rparr>)
                else s2);
          s4 = createExplosion (position projectile) 10 s3
      in s4\<lparr>asteroids := splice1 aIndex (asteroids s4)\<rparr>)"

text \<open>
  The inner loop for the projectile at \<open>pIndex\<close>: \<open>aIndex\<close> runs down to 0 and the loop
  is left at the first hit.
\<close>

fun asteroid_loop :: "nat \<Rightarrow> projectile \<Rightarrow> nat \<Rightarrow> game \<Rightarrow> game" where
  "asteroid_loop pIndex projectile 0 s = s"
| "asteroid_loop pIndex projectile (Suc aIndex) s =
     (let asteroid = asteroids s ! aIndex;
          dist = Math_hypot (x (position projectile) - x (position asteroid))
                            (y (position projectile) - y (position asteroid))
      in if dist < radius asteroid
         then projectileAsteroid_hit pIndex aIndex projectile asteroid s
         else asteroid_loop pIndex projectile aIndex s)"

fun projectile_loop :: "nat \<Rightarrow> game \<Rightarrow> game" where
  "projectile_loop 0 s = s"
| "projectile_loop (Suc pIndex) s =
     (let projectile = projectiles s ! pIndex
      in projectile_loop pIndex (asteroid_loop pIndex projectile (length (asteroids s)) s))"

definition checkCollisions :: "game \<Rightarrow> game" where
  "checkCollisions s =
     (let s1 = playerAsteroid_loop (length (asteroids s)) s
      in projectile_loop (length (projectiles s1)) s1)"

subsection \<open>The animation loop\<close>

fun particle_loop :: "nat \<Rightarrow> game \<Rightarrow> game" where
  "particle_loop 0 s = s"
| "particle_loop (Suc i) s =
     (let particle = particles s ! i
      in particle_loop i
           (if alpha particle \<le> 0
            then s\<lparr>particles := splice1 i (particles s)\<rparr>
            else s\<lparr>particles := (particles s)[i := Particle_update particle]\<rparr>))"

definition animate :: "game \<Rightarrow> game" where
  "animate s =
     (if \<not> isGameOver s then
        (let s1 = s\<lparr>frameRequests := frameRequests s + 1\<rparr>;
             s2 = s1\<lparr>player := Player_update (canvas s1) (player s1)\<rparr>;
             s3 = s2\<lparr>projectiles := map Projectile_update (projectiles s2)\<rparr>;
             s4 = s3\<lparr>asteroids := map (Asteroid_update (canvas s3)) (asteroids s3)\<rparr>;
             s5 = particle_loop (length (particles s4)) s4
         in checkCollisions s5)
      else s)"

definition restartGame :: "game \<Rightarrow> game" where
  "restartGame s =
     (let s1 = s\<lparr>gameOverDivs := (case gameOverDivs s of [] \<Rightarrow> [] | ui # rest \<Rightarrow> rest)\<rparr>;
          s2 = s1\<lparr>isGameOver := False\<rparr>;
          s3 = s2\<lparr>player := (player s2)\<lparr>lives := 3, score := 0\<rparr>\<rparr>;
          s4 = s3\<lparr>asteroids := [], projectiles := [], particles := []\<rparr>;
          s5 = s4\<lparr>player := (player s4)
                 \<lparr>position := \<lparr>x = real (width (canvas s4)) / 2, y = real (height (canvas s4)) / 2\<rparr>,
                  velocity := \<lparr>x = 0, y = 0\<rparr>\<rparr>\<rparr>
      in animate s5)"

text \<open>
  One firing of the interval that \<^verbatim>\<open>startCountdown\<close> set up, for the \<open>k\<close>-th interval
  still running.
\<close>

definition countdownInterval :: "nat \<Rightarrow> game \<Rightarrow> game" where
  "countdownInterval k s =
     (let countdown = countdowns s ! k - 1;
          s1 = s\<lparr>countdowns := (countdowns s)[k := countdown]\<rparr>;
          s2 = (case gameOverDivs s1 of [] \<Rightarrow> s1
                | countdownEl # rest \<Rightarrow> s1\<lparr>gameOverDivs := countdown # rest\<rparr>)
      in if countdown = 0
         then restartGame (s2\<lparr>countdowns := splice1 k (countdowns s2)\<rparr>)
         else s2)"

subsection \<open>Input\<close>

datatype key_code = KeyW | KeyA | KeyD | Space | OtherKey

fun keydown :: "key_code \<Rightarrow> game \<Rightarrow> game" where
  "keydown KeyW s = s\<lparr>keys := (keys s)\<lparr>w := True\<rparr>, player := (player s)\<lparr>isThrusting := True\<rparr>\<rparr>"
| "keydown KeyA s = s\<lparr>keys := (keys s)\<lparr>a := True\<rparr>\<rparr>"
| "keydown KeyD s = s\<lparr>keys := (keys s)\<lparr>d := True\<rparr>\<rparr>"
| "keydown Space s =
     s\<lparr>projectiles := projectiles s @ [new_Projectile (position (player s)) (rotation (player s))]\<rparr>"
| "keydown OtherKey s = s"

fun keyup :: "key_code \<Rightarrow> game \<Rightarrow> game" where
  "keyup KeyW s = s\<lparr>keys := (keys s)\<lparr>w := False\<rparr>, player := (player s)\<lparr>isThrusting := False\<rparr>\<rparr>"
| "keyup KeyA s = s\<lparr>keys := (keys s)\<lparr>a := False\<rparr>\<rparr>"
| "keyup KeyD s = s\<lparr>keys := (keys s)\<lparr>d := False\<rparr>\<rparr>"
| "keyup Space s = s"
| "keyup OtherKey s = s"

text \<open>The callback of \<^verbatim>\<open>setInterval(..., 16)\<close>.\<close>

definition movementInterval :: "game \<Rightarrow> game" where
  "movementInterval s =
     (let s1 = (if w (keys s) then
                  s\<lparr>player := (player s)\<lparr>velocity :=
                      \<lparr>x = x (velocity (player s)) + cos (rotation (player s)) * SHIP_THRUST,
                       y = y (velocity (player s)) + sin (rotation (player s)) * SHIP_THRUST\<rparr>\<rparr>\<rparr>
                else s);
          s2 = (if a (keys s1)
                then s1\<lparr>player := (player s1)\<lparr>rotation := rotation (player s1) - SHIP_ROTATION_SPEED\<rparr>\<rparr>
                else s1)
      in if d (keys s2)
         then s2\<lparr>player := (player s2)\<lparr>rotation := rotation (player s2) + SHIP_ROTATION_SPEED\<rparr>\<rparr>
         else s2)"

subsection \<open>Runs of the script\<close>

text \<open>
  Loading the script creates the globals, registers the timers and listeners and calls
  \<^verbatim>\<open>animate()\<close> once. From then on the browser runs one callback at a time: a pending
  animation frame, one of the intervals, or a key listener.
\<close>

definition loadScript :: "nat \<Rightarrow> nat \<Rightarrow> random_source \<Rightarrow> game" where
  "loadScript innerWidth innerHeight g =
     animate
       \<lparr>canvas = \<lparr>width = innerWidth, height = innerHeight\<rparr>,
        isGameOver = False, level = 1,
        keys = \<lparr>w = False, a = False, d = False\<rparr>,
        projectiles = [], asteroids = [], particles = [],
        player = new_Player \<lparr>width = innerWidth, height = innerHeight\<rparr>,
        rand = g, frameRequests = 0, gameOverDivs = [], countdowns = []\<rparr>"

datatype event =
    AnimationFrame
  | SpawnInterval
  | MovementInterval
  | CountdownInterval nat
  | KeyDown key_code
  | KeyUp key_code

fun step :: "event \<Rightarrow> game \<Rightarrow> game" where
  "step AnimationFrame s =
     (if frameRequests s = 0 then s else animate (s\<lparr>frameRequests := frameRequests s - 1\<rparr>))"
| "step SpawnInterval s = spawnInterval s"
| "step MovementInterval s = movementInterval s"
| "step (CountdownInterval k) s = (if k < length (countdowns s) then countdownInterval k s else s)"
| "step (KeyDown c) s = keydown c s"
| "step (KeyUp c) s = keyup c s"

fun run :: "event list \<Rightarrow> game \<Rightarrow> game" where
  "run [] s = s"
| "run (e # es) s = run es (step e s)"

subsection \<open>Notions used in the statements\<close>

text \<open>The numbers that the rounding leaves as they are: the binary64 numbers.\<close>

definition is_binary64 :: "real \<Rightarrow> bool" where
  "is_binary64 v = (binary64_round v = v)"

text \<open>
  The magnitude of the player's velocity, as an exact real number. The script never computes
  it; it is the quantity that the statements about friction measure.
\<close>

definition velocity_magnitude :: "player \<Rightarrow> real" where
  "velocity_magnitude p = Math_hypot (x (velocity p)) (y (velocity p))"

text \<open>
  The distance between the centres of two entities, as both loops of \<^verbatim>\<open>checkCollisions\<close>
  compute it.
\<close>

abbreviation center_distance :: "'a entity_scheme \<Rightarrow> 'b entity_scheme \<Rightarrow> real" where
  "center_distance e1 e2 \<equiv>
     Math_hypot (x (position e1) - x (position e2)) (y (position e1) - y (position e2))"

text \<open>
  The start position that \<^verbatim>\<open>spawnAsteroid\<close> computes from its first two random numbers
  (\<open>spawnAsteroid_eq\<close> below relates it to the function).
\<close>

definition spawn_point :: "game \<Rightarrow> vec" where
  "spawn_point s =
     (if \<lfloor>rand s 0 * 4\<rfloor> = 0 then \<lparr>x = rand s 1 * real (width (canvas s)), y = - 40\<rparr>
      else if \<lfloor>rand s 0 * 4\<rfloor> = 1
        then \<lparr>x = real (width (canvas s)) + 40, y = rand s 1 * real (height (canvas s))\<rparr>
      else if \<lfloor>rand s 0 * 4\<rfloor> = 2
        then \<lparr>x = rand s 1 * real (width (canvas s)), y = real (height (canvas s)) + 40\<rparr>
      else \<lparr>x = - 40, y = rand s 1 * real (height (canvas s))\<rparr>)"

text \<open>Every callback except a firing of a countdown interval.\<close>

definition other_event :: "event \<Rightarrow> bool" where
  "other_event e = (case e of CountdownInterval k \<Rightarrow> False | _ \<Rightarrow> True)"

subsection \<open>Concrete states\<close>

text \<open>
  An 800 by 600 viewport; a ship in its centre with all three lives, moving with velocity
  \<open>(3, 4)\<close>; a running game with that ship and nothing else, in the middle of a frame (one
  animation frame is requested).
\<close>

definition viewport :: canvas where
  "viewport = \<lparr>width = 800, height = 600\<rparr>"

definition ship :: player where
  "ship = \<lparr>position = \<lparr>x = 400, y = 300\<rparr>, velocity = \<lparr>x = 3, y = 4\<rparr>,
          rotation = 0, lives = 3, score = 0, bestScore = 0, isThrusting = False\<rparr>"

definition arena :: game where
  "arena = \<lparr>canvas = viewport, isGameOver = False, level = 1,
            keys = \<lparr>w = False, a = False, d = False\<rparr>,
            projectiles = [], asteroids = [], particles = [],
            player = ship, rand = (\<lambda>n. 3 / 8),
            frameRequests = 1, gameOverDivs = [], countdowns = []\<rparr>"

text \<open>A large and a small asteroid, and a projectile 10 units from the centre of the large one.\<close>

definition boulder :: asteroid where
  "boulder = \<lparr>position = \<lparr>x = 100, y = 100\<rparr>, velocity = \<lparr>x = 0, y = 0\<rparr>, radius = 40,
              sides = 5, offsets = [0, 0, 0, 0, 0]\<rparr>"

definition pebble :: asteroid where
  "pebble = \<lparr>position = \<lparr>x = 500, y = 500\<rparr>, velocity = \<lparr>x = 0, y = 0\<rparr>, radius = 12,
             sides = 5, offsets = [0, 0, 0, 0, 0]\<rparr>"

definition shot :: projectile where
  "shot = \<lparr>position = \<lparr>x = 110, y = 100\<rparr>, velocity = \<lparr>x = 5, y = 0\<rparr>, radius = 3\<rparr>"

definition field :: game where
  "field = arena\<lparr>asteroids := [boulder, pebble], projectiles := [shot]\<rparr>"

text \<open>The large asteroid 10 units from the ship.\<close>

definition crash :: game where
  "crash = arena\<lparr>asteroids := [boulder\<lparr>position := \<lparr>x = 410, y = 300\<rparr>\<rparr>, pebble]\<rparr>"

text \<open>The ship on its last life with a large asteroid 10 units to either side.\<close>

definition last_life :: game where
  "last_life = arena\<lparr>player := ship\<lparr>lives := 1\<rparr>,
                     asteroids := [boulder\<lparr>position := \<lparr>x = 390, y = 300\<rparr>\<rparr>,
                                   boulder\<lparr>position := \<lparr>x = 410, y = 300\<rparr>\<rparr>]\<rparr>"

text \<open>A game that is over, with a score of 70 and its countdown just started.\<close>

definition wreck :: game where
  "wreck = arena\<lparr>isGameOver := True, player := ship\<lparr>lives := 0, score := 70\<rparr>,
                  asteroids := [pebble], projectiles := [shot],
                  frameRequests := 1, gameOverDivs := [3], countdowns := [3]\<rparr>"

text \<open>The two collision tests of \<^verbatim>\<open>checkCollisions\<close>.\<close>

abbreviation within_reach :: "game \<Rightarrow> asteroid \<Rightarrow> bool" where
  "within_reach s ast \<equiv> center_distance (player s) ast < radius ast + 15"

abbreviation struck :: "projectile \<Rightarrow> asteroid \<Rightarrow> bool" where
  "struck pr ast \<equiv> center_distance pr ast < radius ast"

text \<open>
  The number of times a pass with \<open>k\<close> asteroids within reach, entered with \<open>l\<close> lives,
  brings the lives to 0 or below.
\<close>

definition game_overs :: "int \<Rightarrow> nat \<Rightarrow> nat" where
  "game_overs l k = nat (min (int k) (int k - l + 1))"

text \<open>
  The callbacks \<open>es\<close>, run from \<open>s\<close>, hold no firing of the countdown \<open>k\<close> and no firing
  of another countdown that reaches 0 and so restarts the game.
\<close>

fun without_restart :: "nat \<Rightarrow> event list \<Rightarrow> game \<Rightarrow> bool" where
  "without_restart k [] s = True"
| "without_restart k (e # es) s =
     ((case e of
         CountdownInterval j \<Rightarrow>
           j \<noteq> k \<and> (if j < length (countdowns s) then countdowns s ! j - 1 \<noteq> 0 else True)
       | _ \<Rightarrow> True)
      \<and> without_restart k es (step e s))"

text \<open>
  A ship moving along the x axis at speed 3, and one moving at the least positive binary64
  number.
\<close>

definition cruiser :: player where
  "cruiser = ship\<lparr>velocity := \<lparr>x = 3, y = 0\<rparr>\<rparr>"

definition drifter :: player where
  "drifter = ship\<lparr>velocity := \<lparr>x = 2 powi (- 1074), y = 0\<rparr>\<rparr>"

section \<open>Properties\<close>

subsection \<open>Rounding to an integer\<close>

lemma round_half_even_of_int [simp]: "round_half_even (of_int n) = n"
  by (simp add: round_half_even_def)

lemma round_half_even_le:
  assumes "q \<le> of_int n"
  shows "round_half_even q \<le> n"
proof -
  have f: "\<lfloor>q\<rfloor> \<le> n" using assms by (simp add: floor_le_iff)
  show ?thesis
  proof (cases "\<lfloor>q\<rfloor> = n")
    case True
    with assms have "q - of_int \<lfloor>q\<rfloor> \<le> 0" by simp
    then show ?thesis using True by (simp add: round_half_even_def Let_def)
  next
    case False
    with f have "\<lfloor>q\<rfloor> + 1 \<le> n" by simp
    then show ?thesis by (auto simp: round_half_even_def Let_def)
  qed
qed

lemma round_half_even_ge:
  assumes "of_int n \<le> q"
  shows "n \<le> round_half_even q"
proof -
  have "n \<le> \<lfloor>q\<rfloor>" using assms by (simp add: le_floor_iff)
  then show ?thesis by (auto simp: round_half_even_def Let_def)
qed

lemma round_half_even_pos:
  assumes "1 / 2 < q"
  shows "1 \<le> round_half_even q"
proof (cases "1 \<le> q")
  case True
  then have "of_int 1 \<le> q" by simp
  then show ?thesis by (rule round_half_even_ge)
next
  case False
  with assms have "\<lfloor>q\<rfloor> = 0" by (simp add: floor_eq_iff)
  with assms show ?thesis by (simp add: round_half_even_def Let_def)
qed

subsection \<open>The exponent\<close>

lemma binary64_exponent_ge: "- 1022 \<le> binary64_exponent m"
  by (simp add: binary64_exponent_def)

lemma floor_log2_less:
  assumes "0 < m"
  shows "m < 2 powi (\<lfloor>log 2 m\<rfloor> + 1)"
proof -
  have "(\<lfloor>log 2 m\<rfloor> = \<lfloor>log 2 m\<rfloor>) =
      (2 powr of_int \<lfloor>log 2 m\<rfloor> \<le> m \<and> m < 2 powr of_int (\<lfloor>log 2 m\<rfloor> + 1))"
    using assms by (intro floor_log_eq_powr_iff) simp_all
  then have "m < 2 powr of_int (\<lfloor>log 2 m\<rfloor> + 1)" by simp
  moreover have "(2::real) powr (of_int (\<lfloor>log 2 m\<rfloor> + 1)) = 2 powi (\<lfloor>log 2 m\<rfloor> + 1)"
    by (intro powr_real_of_int') simp_all
  ultimately show ?thesis by simp
qed

lemma floor_log2_le:
  assumes "0 < m"
  shows "2 powi \<lfloor>log 2 m\<rfloor> \<le> m"
proof -
  have "(\<lfloor>log 2 m\<rfloor> = \<lfloor>log 2 m\<rfloor>) =
      (2 powr of_int \<lfloor>log 2 m\<rfloor> \<le> m \<and> m < 2 powr of_int (\<lfloor>log 2 m\<rfloor> + 1))"
    using assms by (intro floor_log_eq_powr_iff) simp_all
  then have "2 powr of_int \<lfloor>log 2 m\<rfloor> \<le> m" by simp
  then show ?thesis by (simp add: powr_real_of_int')
qed

lemma floor_log2_eq:
  assumes "2 powi e \<le> m" "m < 2 powi (e + 1)"
  shows "\<lfloor>log 2 m\<rfloor> = e"
proof -
  have "(0::real) < 2 powi e" by simp
  with assms(1) have pos: "0 < m" by linarith
  have hi: "2 powr (of_int e) \<le> m"
    using assms(1) by (simp add: powr_real_of_int')
  have "(2::real) powr (of_int (e + 1)) = 2 powi (e + 1)"
    by (intro powr_real_of_int') simp_all
  with assms(2) have b: "m < 2 powr (of_int (e + 1))" by simp
  have "(\<lfloor>log 2 m\<rfloor> = e) = (2 powr of_int e \<le> m \<and> m < 2 powr of_int (e + 1))"
    using pos by (intro floor_log_eq_powr_iff) simp_all
  with hi b show ?thesis by blast
qed

lemma binary64_exponent_less:
  assumes "0 < m"
  shows "m < 2 powi (binary64_exponent m + 1)"
proof -
  have "m < 2 powi (\<lfloor>log 2 m\<rfloor> + 1)" using assms by (rule floor_log2_less)
  also have "\<dots> \<le> 2 powi (binary64_exponent m + 1)"
    by (intro power_int_increasing) (simp_all add: binary64_exponent_def)
  finally show ?thesis .
qed

lemma binary64_exponent_normal:
  assumes "0 < m" "binary64_exponent m \<noteq> - 1022"
  shows "2 powi binary64_exponent m \<le> m"
proof -
  from assms(2) have "binary64_exponent m = \<lfloor>log 2 m\<rfloor>"
    by (simp add: binary64_exponent_def max_def split: if_splits)
  with floor_log2_le [OF assms(1)] show ?thesis by simp
qed

lemma binary64_exponent_mono:
  assumes "0 < hi" "hi \<le> b"
  shows "binary64_exponent hi \<le> binary64_exponent b"
proof -
  have "log 2 hi \<le> log 2 b" using assms by simp
  then have "\<lfloor>log 2 hi\<rfloor> \<le> \<lfloor>log 2 b\<rfloor>" by (rule floor_mono)
  then show ?thesis by (simp add: binary64_exponent_def)
qed

lemma binary64_exponent_eq:
  assumes "2 powi e \<le> m" "m < 2 powi (e + 1)" "- 1022 \<le> e"
  shows "binary64_exponent m = e"
  using floor_log2_eq [OF assms(1,2)] assms(3) by (simp add: binary64_exponent_def)

lemma binary64_exponent_subnormal:
  assumes "0 < m" "m < 2 powi (- 1022)"
  shows "binary64_exponent m = - 1022"
proof (rule ccontr)
  assume "binary64_exponent m \<noteq> - 1022"
  then have n: "2 powi binary64_exponent m \<le> m" and g: "- 1022 < binary64_exponent m"
    using binary64_exponent_normal [OF assms(1)] binary64_exponent_ge [of m] by simp_all
  have "(2::real) powi (- 1022) \<le> 2 powi binary64_exponent m"
    using g by (intro power_int_increasing) simp_all
  with n assms(2) show False by linarith
qed


subsection \<open>Rounding to binary64\<close>

lemma binary64_ulp_pos: "0 < binary64_ulp m"
  by (simp add: binary64_ulp_def)

lemma binary64_ulp_ge: "2 powi (- 1074) \<le> binary64_ulp m"
  unfolding binary64_ulp_def
  using binary64_exponent_ge [of m] by (intro power_int_increasing) simp_all

lemma binary64_ulp_top: "binary64_ulp m * 2 ^ 53 = 2 powi (binary64_exponent m + 1)"
proof -
  have e: "binary64_exponent m + 1 = (binary64_exponent m - 52) + 53"
    by simp
  have "(2::real) powi ((binary64_exponent m - 52) + 53)
          = 2 powi (binary64_exponent m - 52) * 2 powi 53"
    by (rule power_int_add) simp
  then show ?thesis
    unfolding e binary64_ulp_def by simp
qed

lemma binary64_ulp_bottom: "binary64_ulp m * 2 ^ 52 = 2 powi binary64_exponent m"
proof -
  have e: "binary64_exponent m = (binary64_exponent m - 52) + 52"
    by simp
  have "(2::real) powi ((binary64_exponent m - 52) + 52)
          = 2 powi (binary64_exponent m - 52) * 2 powi 52"
    by (rule power_int_add) simp
  then have "(2::real) powi binary64_exponent m = 2 powi (binary64_exponent m - 52) * 2 powi 52"
    using e by simp
  then show ?thesis
    unfolding binary64_ulp_def by simp
qed

lemma binary64_round_zero [simp]: "binary64_round 0 = 0"
  by (simp add: binary64_round_def)

lemma binary64_round_pos:
  "0 < v \<Longrightarrow>
     binary64_round v = binary64_ulp v * of_int (round_half_even (v / binary64_ulp v))"
  by (simp add: binary64_round_def)

lemma binary64_round_minus: "binary64_round (- v) = - binary64_round v"
  by (simp add: binary64_round_def sgn_minus)

lemma binary64_round_nonneg:
  assumes "0 \<le> v"
  shows "0 \<le> binary64_round v"
proof (cases "v = 0")
  case True
  then show ?thesis by simp
next
  case False
  with assms have v: "0 < v" by simp
  have "of_int 0 \<le> v / binary64_ulp v"
    using v binary64_ulp_pos [of v] by simp
  then have "0 \<le> round_half_even (v / binary64_ulp v)"
    by (rule round_half_even_ge)
  then show ?thesis
    using binary64_ulp_pos [of v] by (simp add: binary64_round_pos [OF v])
qed

lemma binary64_round_abs: "\<bar>binary64_round v\<bar> = binary64_round \<bar>v\<bar>"
proof (cases "0 \<le> v")
  case True
  with binary64_round_nonneg [OF True] show ?thesis by simp
next
  case False
  then have "0 \<le> - v" by simp
  from binary64_round_nonneg [OF this] False show ?thesis
    by (simp add: binary64_round_minus)
qed

text \<open>The quotient that is rounded lies below \<open>2 ^ 53\<close>, and in the normal range at or above \<open>2 ^ 52\<close>.\<close>

lemma quotient_less:
  assumes "0 < v"
  shows "v / binary64_ulp v < 2 ^ 53"
proof -
  have "v < binary64_ulp v * 2 ^ 53"
    using binary64_exponent_less [OF assms] binary64_ulp_top [of v] by simp
  then show ?thesis
    using binary64_ulp_pos [of v] by (simp add: field_simps)
qed

lemma quotient_ge:
  assumes "0 < v" "binary64_exponent v \<noteq> - 1022"
  shows "2 ^ 52 \<le> v / binary64_ulp v"
proof -
  have "binary64_ulp v * 2 ^ 52 \<le> v"
    using binary64_exponent_normal [OF assms] binary64_ulp_bottom [of v] by simp
  then show ?thesis
    using binary64_ulp_pos [of v] by (simp add: field_simps)
qed

lemma binary64_round_idem:
  "binary64_round (binary64_round v) = binary64_round v"
proof -
  have pos: "binary64_round (binary64_round v) = binary64_round v" if v: "0 < v" for v
  proof -
    define u where "u = binary64_ulp v"
    define n where "n = round_half_even (v / u)"
    define z where "z = binary64_round v"
    have u: "0 < u" by (simp add: u_def binary64_ulp_pos)
    have z: "z = u * of_int n"
      by (simp add: z_def n_def u_def binary64_round_pos [OF v])
    have "v / u \<le> of_int (2 ^ 53)"
      using quotient_less [OF v] by (simp add: u_def)
    then have n_le: "n \<le> 2 ^ 53"
      unfolding n_def by (rule round_half_even_le)
    have "of_int 0 \<le> v / u" using v u by simp
    then have n_ge: "0 \<le> n"
      unfolding n_def by (rule round_half_even_ge)
    show ?thesis
    proof (cases "n = 0")
      case True
      then show ?thesis using z by (simp add: z_def [symmetric])
    next
      case False
      with n_ge have n_pos: "0 < n" by simp
      have z_pos: "0 < z" using u n_pos by (simp add: z)
      show ?thesis
      proof (cases "n = 2 ^ 53")
        case True
        have zt: "z = 2 powi (binary64_exponent v + 1)"
          using binary64_ulp_top [of v] by (simp add: z True u_def)
        have "z < 2 powi (binary64_exponent v + 1 + 1)"
          unfolding zt by (intro power_int_strict_increasing) simp_all
        then have ez: "binary64_exponent z = binary64_exponent v + 1"
          using binary64_exponent_ge [of v]
          by (intro binary64_exponent_eq) (simp_all add: zt)
        have "binary64_ulp z * 2 ^ 52 = 2 powi binary64_exponent z"
          by (rule binary64_ulp_bottom)
        then have "binary64_ulp z * 2 ^ 52 = z"
          unfolding ez zt [symmetric] .
        then have q: "z / binary64_ulp z = of_int (2 ^ 52)"
          using binary64_ulp_pos [of z] by (simp add: field_simps)
        have "binary64_round z = binary64_ulp z * of_int (2 ^ 52)"
          unfolding binary64_round_pos [OF z_pos] q round_half_even_of_int ..
        also have "\<dots> = z"
          using \<open>binary64_ulp z * 2 ^ 52 = z\<close> by simp
        finally show ?thesis by (simp add: z_def)
      next
        case False
        with n_le have n_lt: "n < 2 ^ 53" by simp
        have "u * of_int n < u * 2 ^ 53"
          using u n_lt by (simp add: of_int_less_iff [of n "2 ^ 53", where 'a = real, simplified])
        then have z_lt: "z < 2 powi (binary64_exponent v + 1)"
          using binary64_ulp_top [of v] by (simp add: z u_def)
        have ez: "binary64_exponent z = binary64_exponent v"
        proof (cases "binary64_exponent v = - 1022")
          case True
          have "binary64_exponent z \<le> - 1022"
          proof (rule ccontr)
            assume "\<not> binary64_exponent z \<le> - 1022"
            then have g: "- 1021 \<le> binary64_exponent z" and ne: "binary64_exponent z \<noteq> - 1022"
              by simp_all
            have "(2::real) powi (- 1021) \<le> 2 powi binary64_exponent z"
              using g by (intro power_int_increasing) simp_all
            also have "\<dots> \<le> z"
              using z_pos ne by (rule binary64_exponent_normal)
            finally show False using z_lt by (simp add: True)
          qed
          with binary64_exponent_ge [of z] True show ?thesis by simp
        next
          case False
          have "of_int (2 ^ 52) \<le> v / u"
            using quotient_ge [OF v False] by (simp add: u_def)
          then have "2 ^ 52 \<le> n"
            unfolding n_def by (rule round_half_even_ge)
          then have "u * 2 ^ 52 \<le> u * of_int n"
            using u by (simp add: of_int_le_iff [of "2 ^ 52" n, where 'a = real, simplified])
          then have "2 powi binary64_exponent v \<le> z"
            using binary64_ulp_bottom [of v] by (simp add: z u_def)
          then show ?thesis
            using z_lt binary64_exponent_ge [of v] by (intro binary64_exponent_eq)
        qed
        have uz: "binary64_ulp z = u"
          by (simp add: binary64_ulp_def ez u_def)
        have q: "z / u = of_int n"
          using u by (simp add: z)
        have "binary64_round z = u * of_int n"
          unfolding binary64_round_pos [OF z_pos] uz q round_half_even_of_int ..
        then show ?thesis by (simp add: z z_def [symmetric])
      qed
    qed
  qed
  show ?thesis
  proof (cases "0 < v")
    case True
    then show ?thesis by (rule pos)
  next
    case False
    show ?thesis
    proof (cases "v = 0")
      case True
      then show ?thesis by simp
    next
      case False
      with \<open>\<not> 0 < v\<close> have "0 < - v" by simp
      from pos [OF this] show ?thesis
        by (simp add: binary64_round_minus)
    qed
  qed
qed


lemma is_binary64_round: "is_binary64 (binary64_round v)"
  by (simp add: is_binary64_def binary64_round_idem)

lemma is_binary64_minus: "is_binary64 (- v) = is_binary64 v"
  by (auto simp: is_binary64_def binary64_round_minus)

lemma is_binary64_abs: "is_binary64 v \<Longrightarrow> is_binary64 \<bar>v\<bar>"
  by (simp add: abs_if is_binary64_minus)

text \<open>Rounding never carries a value past a binary64 number that lies above it.\<close>

lemma binary64_round_le:
  assumes hi: "is_binary64 hi" and b: "0 \<le> b" "b \<le> hi"
  shows "binary64_round b \<le> hi"
proof (cases "b = 0")
  case True
  with b show ?thesis by simp
next
  case False
  with b have bp: "0 < b" and ap: "0 < hi" by simp_all
  define n where "n = round_half_even (hi / binary64_ulp hi)"
  define sh where "sh = nat (binary64_exponent hi - binary64_exponent b)"
  have an: "hi = binary64_ulp hi * of_int n"
    using hi by (simp add: is_binary64_def binary64_round_pos [OF ap] n_def)
  have le: "binary64_exponent b \<le> binary64_exponent hi"
    using bp b(2) by (rule binary64_exponent_mono)
  have "(2::real) powi ((binary64_exponent b - 52) + int sh)
          = 2 powi (binary64_exponent b - 52) * 2 powi int sh"
    by (rule power_int_add) simp
  moreover have "(binary64_exponent b - 52) + int sh = binary64_exponent hi - 52"
    using le by (simp add: sh_def)
  ultimately have ua: "binary64_ulp hi = binary64_ulp b * 2 ^ sh"
    by (simp add: binary64_ulp_def)
  have "hi = binary64_ulp b * of_int (n * 2 ^ sh)"
    by (subst an) (simp add: ua)
  then have q: "hi / binary64_ulp b = of_int (n * 2 ^ sh)"
    using binary64_ulp_pos [of b] by (simp add: field_simps)
  have "b / binary64_ulp b \<le> hi / binary64_ulp b"
    using b(2) binary64_ulp_pos [of b] by (simp add: divide_right_mono)
  then have "round_half_even (b / binary64_ulp b) \<le> n * 2 ^ sh"
    unfolding q by (rule round_half_even_le)
  then have "of_int (round_half_even (b / binary64_ulp b)) \<le> (of_int (n * 2 ^ sh) :: real)"
    by (simp only: of_int_le_iff)
  then have "binary64_ulp b * of_int (round_half_even (b / binary64_ulp b))
               \<le> binary64_ulp b * of_int (n * 2 ^ sh)"
    using binary64_ulp_pos [of b] by (simp only: mult_le_cancel_left_pos)
  also have "\<dots> = hi"
    using q binary64_ulp_pos [of b] by (simp add: field_simps)
  finally show ?thesis
    by (simp only: binary64_round_pos [OF bp])
qed

text \<open>A binary64 number other than 0 is at least the least subnormal number in magnitude.\<close>

lemma is_binary64_least:
  assumes "is_binary64 hi" "hi \<noteq> 0"
  shows "2 powi (- 1074) \<le> \<bar>hi\<bar>"
proof -
  have m: "is_binary64 \<bar>hi\<bar>" and p: "0 < \<bar>hi\<bar>"
    using assms by (simp_all add: is_binary64_abs)
  define n where "n = round_half_even (\<bar>hi\<bar> / binary64_ulp \<bar>hi\<bar>)"
  have an: "\<bar>hi\<bar> = binary64_ulp \<bar>hi\<bar> * of_int n"
    using m by (simp add: is_binary64_def binary64_round_pos [OF p] n_def)
  have "0 < binary64_ulp \<bar>hi\<bar> * of_int n"
    using p an by simp
  then have "(0::real) < of_int n"
    using binary64_ulp_pos [of "\<bar>hi\<bar>"] by (simp add: zero_less_mult_iff)
  then have "(1::real) \<le> of_int n" by simp
  then have "binary64_ulp \<bar>hi\<bar> * 1 \<le> binary64_ulp \<bar>hi\<bar> * of_int n"
    using binary64_ulp_pos [of "\<bar>hi\<bar>"] by (simp only: mult_le_cancel_left_pos)
  with binary64_ulp_ge [of "\<bar>hi\<bar>"] an show ?thesis by simp
qed

text \<open>Anything above half the least subnormal number is rounded to a positive number.\<close>

lemma binary64_round_positive:
  assumes "2 powi (- 1075) < b"
  shows "0 < binary64_round b"
proof -
  have "(0::real) < 2 powi (- 1075)" by simp
  with assms have bp: "0 < b" by linarith
  have "1 \<le> round_half_even (b / binary64_ulp b)"
  proof (cases "binary64_exponent b = - 1022")
    case True
    have u: "binary64_ulp b = 2 powi (- 1074)"
      by (simp add: binary64_ulp_def True)
    have "(2::real) powi (- 1075 + 1) = 2 powi (- 1075) * 2 powi 1"
      by (rule power_int_add) simp
    then have "(2::real) powi (- 1074) = 2 powi (- 1075) * 2"
      by simp
    with assms have "2 powi (- 1074) < b * 2" by simp
    then have "1 / 2 < b / 2 powi (- 1074)"
      by (simp add: field_simps)
    then show ?thesis
      unfolding u by (rule round_half_even_pos)
  next
    case False
    have "(1::real) \<le> 2 ^ 52" by simp
    also have "\<dots> \<le> b / binary64_ulp b"
      using bp False by (rule quotient_ge)
    finally have "of_int 1 \<le> b / binary64_ulp b" by simp
    then show ?thesis by (rule round_half_even_ge)
  qed
  then have "(0::real) < of_int (round_half_even (b / binary64_ulp b))"
    by simp
  then show ?thesis
    using binary64_ulp_pos [of b] by (simp add: binary64_round_pos [OF bp])
qed

subsection \<open>Evaluating the rounding\<close>

lemma binary64_round_normal:
  assumes "2 powi e \<le> v" "v < 2 powi (e + 1)" "- 1022 \<le> e"
  shows "binary64_round v = 2 powi (e - 52) * of_int (round_half_even (v / 2 powi (e - 52)))"
proof -
  have "(0::real) < 2 powi e" by simp
  with assms(1) have vp: "0 < v" by linarith
  have "binary64_ulp v = 2 powi (e - 52)"
    by (simp add: binary64_ulp_def binary64_exponent_eq [OF assms])
  then show ?thesis
    by (simp add: binary64_round_pos [OF vp])
qed

lemma binary64_round_subnormal:
  assumes "0 < v" "v < 2 powi (- 1022)"
  shows "binary64_round v = 2 powi (- 1074) * of_int (round_half_even (v / 2 powi (- 1074)))"
proof -
  have "binary64_exponent v - 52 = - 1074"
    by (simp add: binary64_exponent_subnormal [OF assms])
  then have u: "binary64_ulp v = 2 powi (- 1074)"
    by (simp only: binary64_ulp_def)
  show ?thesis
    by (simp only: binary64_round_pos [OF assms(1)] u)
qed

lemma FRICTION_value: "FRICTION = 4458563631096791 / 4503599627370496"
proof -
  have "binary64_round (99 / 100)
          = 2 powi (- 1 - 52) * of_int (round_half_even ((99 / 100) / 2 powi (- 1 - 52)))"
    by (rule binary64_round_normal) simp_all
  also have "\<dots> = 4458563631096791 / 4503599627370496"
    by (simp add: round_half_even_def power_int_minus field_simps)
  finally show ?thesis by (simp add: FRICTION_def)
qed

subsection \<open>Explosions only add particles\<close>

lemma createExplosion_asteroids [simp]: "asteroids (createExplosion pos n s) = asteroids s"
  by (induction n arbitrary: s) (simp_all add: Let_def split: prod.splits)

lemma createExplosion_player [simp]: "player (createExplosion pos n s) = player s"
  by (induction n arbitrary: s) (simp_all add: Let_def split: prod.splits)

lemma createExplosion_projectiles [simp]: "projectiles (createExplosion pos n s) = projectiles s"
  by (induction n arbitrary: s) (simp_all add: Let_def split: prod.splits)

lemma createExplosion_isGameOver [simp]: "isGameOver (createExplosion pos n s) = isGameOver s"
  by (induction n arbitrary: s) (simp_all add: Let_def split: prod.splits)

lemma createExplosion_canvas [simp]: "canvas (createExplosion pos n s) = canvas s"
  by (induction n arbitrary: s) (simp_all add: Let_def split: prod.splits)

lemma createExplosion_countdowns [simp]: "countdowns (createExplosion pos n s) = countdowns s"
  by (induction n arbitrary: s) (simp_all add: Let_def split: prod.splits)

lemma createExplosion_gameOverDivs [simp]: "gameOverDivs (createExplosion pos n s) = gameOverDivs s"
  by (induction n arbitrary: s) (simp_all add: Let_def split: prod.splits)

lemma createExplosion_frameRequests [simp]:
  "frameRequests (createExplosion pos n s) = frameRequests s"
  by (induction n arbitrary: s) (simp_all add: Let_def split: prod.splits)

lemma createExplosion_keys [simp]: "keys (createExplosion pos n s) = keys s"
  by (induction n arbitrary: s) (simp_all add: Let_def split: prod.splits)

lemma createExplosion_level [simp]: "level (createExplosion pos n s) = level s"
  by (induction n arbitrary: s) (simp_all add: Let_def split: prod.splits)

lemma createExplosion_particles:
  "\<exists>ps. particles (createExplosion pos n s) = particles s @ ps \<and> length ps = n
        \<and> list_all (\<lambda>p. position p = pos) ps"
proof (induction n arbitrary: s)
  case 0
  show ?case by simp
next
  case (Suc n)
  obtain r1 g1 where m1: "Math_random (rand s) = (r1, g1)"
    by (cases "Math_random (rand s)")
  obtain r2 g2 where m2: "Math_random g1 = (r2, g2)"
    by (cases "Math_random g1")
  obtain pt g3 where m3:
    "new_Particle pos \<lparr>x = cos (r1 * pi * 2) * (r2 * 2), y = sin (r1 * pi * 2) * (r2 * 2)\<rparr> g2
       = (pt, g3)"
    by (cases "new_Particle pos
                 \<lparr>x = cos (r1 * pi * 2) * (r2 * 2), y = sin (r1 * pi * 2) * (r2 * 2)\<rparr> g2")
  have pos: "position pt = pos"
    using m3 by (auto simp: new_Particle_def Let_def split: prod.splits)
  from Suc.IH [of "s\<lparr>particles := particles s @ [pt], rand := g3\<rparr>"]
  obtain ps where ps:
    "particles (createExplosion pos n (s\<lparr>particles := particles s @ [pt], rand := g3\<rparr>))
       = (particles s @ [pt]) @ ps"
    "length ps = n" "list_all (\<lambda>p. position p = pos) ps"
    by auto
  show ?case
    by (rule exI [of _ "pt # ps"]) (simp add: m1 m2 m3 Let_def ps pos)
qed

subsection \<open>Screen wrapping\<close>

lemma Player_update_x:
  "x (position (Player_update cv p)) =
     (if x (position p) + x (velocity p) > real (width cv) then 0
      else if x (position p) + x (velocity p) < 0 then real (width cv)
      else x (position p) + x (velocity p))"
  by (simp add: Player_update_def Let_def)

lemma Player_update_y:
  "y (position (Player_update cv p)) =
     (if y (position p) + y (velocity p) > real (height cv) then 0
      else if y (position p) + y (velocity p) < 0 then real (height cv)
      else y (position p) + y (velocity p))"
  by (simp add: Player_update_def Let_def)

lemma Asteroid_update_x:
  "x (position (Asteroid_update cv ast)) =
     (if x (position ast) + x (velocity ast) > real (width cv) then 0
      else if x (position ast) + x (velocity ast) < 0 then real (width cv)
      else x (position ast) + x (velocity ast))"
  by (simp add: Asteroid_update_def Let_def)

lemma Asteroid_update_y:
  "y (position (Asteroid_update cv ast)) =
     (if y (position ast) + y (velocity ast) > real (height cv) then 0
      else if y (position ast) + y (velocity ast) < 0 then real (height cv)
      else y (position ast) + y (velocity ast))"
  by (simp add: Asteroid_update_def Let_def)

text \<open>
  C2 as stated fails: a ship on the left edge that moves left by one unit is put at
  \<open>x = width\<close>, which is outside the half-open interval \<open>[0, width)\<close>.
\<close>

theorem wrap_half_open_counterexample:
  "\<not> x (position (Player_update \<lparr>width = 800, height = 600\<rparr>
         \<lparr>position = \<lparr>x = 0, y = 300\<rparr>, velocity = \<lparr>x = - 1, y = 0\<rparr>,
          rotation = 0, lives = 3, score = 0, bestScore = 0, isThrusting = False\<rparr>)) < 800"
  by (simp add: Player_update_x)

text \<open>
  C2, amended: after one update of a Player or an Asteroid, from any position and with any
  velocity, the x coordinate lies in the closed interval \<open>[0, width]\<close> and the y coordinate
  in \<open>[0, height]\<close>. Each axis is wrapped on its own: a coordinate that has moved beyond
  its upper bound becomes 0, one that has moved below 0 becomes the upper bound (so the
  value \<open>width\<close>, respectively \<open>height\<close>, is reached), and any other coordinate is kept.
\<close>

theorem wrap_into_closed_rectangle:
  "0 \<le> x (position (Player_update cv p)) \<and> x (position (Player_update cv p)) \<le> real (width cv)
   \<and> 0 \<le> y (position (Player_update cv p)) \<and> y (position (Player_update cv p)) \<le> real (height cv)
   \<and> 0 \<le> x (position (Asteroid_update cv ast)) \<and> x (position (Asteroid_update cv ast)) \<le> real (width cv)
   \<and> 0 \<le> y (position (Asteroid_update cv ast)) \<and> y (position (Asteroid_update cv ast)) \<le> real (height cv)
   \<and> x (position (Player_update cv p)) =
       (if x (position p) + x (velocity p) > real (width cv) then 0
        else if x (position p) + x (velocity p) < 0 then real (width cv)
        else x (position p) + x (velocity p))
   \<and> y (position (Player_update cv p)) =
       (if y (position p) + y (velocity p) > real (height cv) then 0
        else if y (position p) + y (velocity p) < 0 then real (height cv)
        else y (position p) + y (velocity p))
   \<and> x (position (Asteroid_update cv ast)) =
       (if x (position ast) + x (velocity ast) > real (width cv) then 0
        else if x (position ast) + x (velocity ast) < 0 then real (width cv)
        else x (position ast) + x (velocity ast))
   \<and> y (position (Asteroid_update cv ast)) =
       (if y (position ast) + y (velocity ast) > real (height cv) then 0
        else if y (position ast) + y (velocity ast) < 0 then real (height cv)
        else y (position ast) + y (velocity ast))"
  by (simp add: Player_update_x Player_update_y Asteroid_update_x Asteroid_update_y)

text \<open>The amended statement at the input of the counterexample: the ship lands on \<open>x = 800\<close>.\<close>

theorem wrap_into_closed_rectangle_witness:
  "x (position (Player_update viewport (ship\<lparr>position := \<lparr>x = 0, y = 300\<rparr>,
                                             velocity := \<lparr>x = - 1, y = 0\<rparr>\<rparr>))) = 800
   \<and> y (position (Player_update viewport (ship\<lparr>position := \<lparr>x = 0, y = 300\<rparr>,
                                               velocity := \<lparr>x = - 1, y = 0\<rparr>\<rparr>))) = 300"
  using wrap_into_closed_rectangle
          [where cv = viewport
             and p = "ship\<lparr>position := \<lparr>x = 0, y = 300\<rparr>, velocity := \<lparr>x = - 1, y = 0\<rparr>\<rparr>"]
  by (simp add: viewport_def ship_def)

subsection \<open>Distances\<close>

lemma Math_hypot_nonneg: "0 \<le> Math_hypot u v"
  by (simp add: Math_hypot_def)

lemma Math_hypot_3_4: "Math_hypot 3 4 = 5"
proof -
  have "(3::real)\<^sup>2 + 4\<^sup>2 = 5\<^sup>2" by simp
  then show ?thesis unfolding Math_hypot_def by simp
qed

subsection \<open>The spawner\<close>

lemma new_Asteroid_position [simp]: "position (fst (new_Asteroid pos r g)) = pos"
  by (simp add: new_Asteroid_def Let_def split: prod.splits)

lemma new_Asteroid_radius [simp]: "radius (fst (new_Asteroid pos r g)) = r"
  by (simp add: new_Asteroid_def Let_def split: prod.splits)

lemma spawnAsteroid_eq:
  "spawnAsteroid s =
     s\<lparr>asteroids := asteroids s @
          [(fst (new_Asteroid (spawn_point s) 40 (\<lambda>n. rand s (Suc (Suc n)))))
             \<lparr>velocity := \<lparr>x = (real (width (canvas s)) / 2 - x (spawn_point s)) * (2 / 1000),
                           y = (real (height (canvas s)) / 2 - y (spawn_point s)) * (2 / 1000)\<rparr>\<rparr>],
       rand := snd (new_Asteroid (spawn_point s) 40 (\<lambda>n. rand s (Suc (Suc n))))\<rparr>"
  unfolding spawnAsteroid_def Math_random_def Let_def spawn_point_def
  by (simp add: case_prod_beta)

lemma floor_quarters:
  assumes "0 \<le> (r::real)" "r < 1"
  shows "(\<lfloor>r * 4\<rfloor> = 0) = (r < 1 / 4)" "(\<lfloor>r * 4\<rfloor> = 1) = (1 / 4 \<le> r \<and> r < 1 / 2)"
        "(\<lfloor>r * 4\<rfloor> = 2) = (1 / 2 \<le> r \<and> r < 3 / 4)" "(\<lfloor>r * 4\<rfloor> = 3) = (3 / 4 \<le> r)"
  using assms by (auto simp: floor_eq_iff)

lemma spawnAsteroid_last:
  "butlast (asteroids (spawnAsteroid s)) = asteroids s"
  "length (asteroids (spawnAsteroid s)) = length (asteroids s) + 1"
  "radius (last (asteroids (spawnAsteroid s))) = 40"
  "position (last (asteroids (spawnAsteroid s))) = spawn_point s"
  "velocity (last (asteroids (spawnAsteroid s))) =
     \<lparr>x = (real (width (canvas s)) / 2 - x (spawn_point s)) * (2 / 1000),
      y = (real (height (canvas s)) / 2 - y (spawn_point s)) * (2 / 1000)\<rparr>"
  by (simp_all add: spawnAsteroid_eq)

text \<open>
  C8: \<^verbatim>\<open>spawnAsteroid\<close> appends exactly one asteroid. Its first random number \<open>rand s 0\<close>
  picks the edge, each of the four edges on one quarter of \<open>[0, 1)\<close>: top, right, bottom,
  left. The start position lies 40 units outside that edge (\<open>y = - 40\<close>, \<open>x = width + 40\<close>,
  \<open>y = height + 40\<close>, \<open>x = - 40\<close>), at the fraction \<open>rand s 1\<close> of the edge's extent. The
  radius is 40 and the velocity is \<open>(center - position) * 0.002\<close> on each axis. The timer
  that calls \<^verbatim>\<open>spawnAsteroid\<close> leaves the state as it is while the game is over.
\<close>

theorem spawnAsteroid_on_edge:
  assumes "0 \<le> rand s 0" "rand s 0 < 1" "0 \<le> rand s 1" "rand s 1 < 1"
  shows "butlast (asteroids (spawnAsteroid s)) = asteroids s
    \<and> length (asteroids (spawnAsteroid s)) = length (asteroids s) + 1
    \<and> position (last (asteroids (spawnAsteroid s))) =
        (if rand s 0 < 1 / 4 then \<lparr>x = rand s 1 * real (width (canvas s)), y = - 40\<rparr>
         else if rand s 0 < 1 / 2 then \<lparr>x = real (width (canvas s)) + 40, y = rand s 1 * real (height (canvas s))\<rparr>
         else if rand s 0 < 3 / 4 then \<lparr>x = rand s 1 * real (width (canvas s)), y = real (height (canvas s)) + 40\<rparr>
         else \<lparr>x = - 40, y = rand s 1 * real (height (canvas s))\<rparr>)
    \<and> 0 \<le> rand s 1 * real (width (canvas s)) \<and> rand s 1 * real (width (canvas s)) \<le> real (width (canvas s))
    \<and> 0 \<le> rand s 1 * real (height (canvas s)) \<and> rand s 1 * real (height (canvas s)) \<le> real (height (canvas s))
    \<and> radius (last (asteroids (spawnAsteroid s))) = 40
    \<and> velocity (last (asteroids (spawnAsteroid s))) =
        \<lparr>x = (real (width (canvas s)) / 2 - x (position (last (asteroids (spawnAsteroid s))))) * (2 / 1000),
         y = (real (height (canvas s)) / 2 - y (position (last (asteroids (spawnAsteroid s))))) * (2 / 1000)\<rparr>
    \<and> spawnInterval s = (if isGameOver s then s else spawnAsteroid s)"
proof -
  have pt: "spawn_point s =
        (if rand s 0 < 1 / 4 then \<lparr>x = rand s 1 * real (width (canvas s)), y = - 40\<rparr>
         else if rand s 0 < 1 / 2 then \<lparr>x = real (width (canvas s)) + 40, y = rand s 1 * real (height (canvas s))\<rparr>
         else if rand s 0 < 3 / 4 then \<lparr>x = rand s 1 * real (width (canvas s)), y = real (height (canvas s)) + 40\<rparr>
         else \<lparr>x = - 40, y = rand s 1 * real (height (canvas s))\<rparr>)"
    unfolding spawn_point_def floor_quarters [OF assms(1,2)] by auto
  have bw: "0 \<le> rand s 1 * real (width (canvas s))" "rand s 1 * real (width (canvas s)) \<le> real (width (canvas s))"
    using assms(3,4) by (simp_all add: mult_left_le_one_le)
  have bh: "0 \<le> rand s 1 * real (height (canvas s))" "rand s 1 * real (height (canvas s)) \<le> real (height (canvas s))"
    using assms(3,4) by (simp_all add: mult_left_le_one_le)
  have iv: "spawnInterval s = (if isGameOver s then s else spawnAsteroid s)"
    by (simp add: spawnInterval_def)
  have ps: "position (last (asteroids (spawnAsteroid s))) =
        (if rand s 0 < 1 / 4 then \<lparr>x = rand s 1 * real (width (canvas s)), y = - 40\<rparr>
         else if rand s 0 < 1 / 2 then \<lparr>x = real (width (canvas s)) + 40, y = rand s 1 * real (height (canvas s))\<rparr>
         else if rand s 0 < 3 / 4 then \<lparr>x = rand s 1 * real (width (canvas s)), y = real (height (canvas s)) + 40\<rparr>
         else \<lparr>x = - 40, y = rand s 1 * real (height (canvas s))\<rparr>)"
    using pt by (simp only: spawnAsteroid_last(4))
  have vl: "velocity (last (asteroids (spawnAsteroid s))) =
        \<lparr>x = (real (width (canvas s)) / 2 - x (position (last (asteroids (spawnAsteroid s))))) * (2 / 1000),
         y = (real (height (canvas s)) / 2 - y (position (last (asteroids (spawnAsteroid s))))) * (2 / 1000)\<rparr>"
    by (simp only: spawnAsteroid_last(4,5))
  show ?thesis
    using spawnAsteroid_last(1,2,3) [of s] bw bh iv ps vl by blast
qed

text \<open>With \<open>rand = 3/8\<close> throughout, the asteroid starts on the right edge at \<open>(840, 225)\<close>.\<close>

theorem spawnAsteroid_on_edge_witness:
  "position (last (asteroids (spawnAsteroid arena))) = \<lparr>x = 840, y = 225\<rparr>
   \<and> radius (last (asteroids (spawnAsteroid arena))) = 40
   \<and> velocity (last (asteroids (spawnAsteroid arena))) = \<lparr>x = - 88 / 100, y = 15 / 100\<rparr>
   \<and> spawnInterval arena = spawnAsteroid arena
   \<and> spawnInterval (arena\<lparr>isGameOver := True\<rparr>) = arena\<lparr>isGameOver := True\<rparr>"
proof -
  have r: "0 \<le> rand arena 0" "rand arena 0 < 1" "0 \<le> rand arena 1" "rand arena 1 < 1"
    by (simp_all add: arena_def)
  have r': "0 \<le> rand (arena\<lparr>isGameOver := True\<rparr>) 0" "rand (arena\<lparr>isGameOver := True\<rparr>) 0 < 1"
     "0 \<le> rand (arena\<lparr>isGameOver := True\<rparr>) 1" "rand (arena\<lparr>isGameOver := True\<rparr>) 1 < 1"
    by (simp_all add: arena_def)
  have v: "rand arena 0 = 3 / 8" "rand arena (Suc 0) = 3 / 8" "canvas arena = viewport" "\<not> isGameOver arena"
    by (simp_all add: arena_def)
  show ?thesis
    using spawnAsteroid_on_edge [OF r] spawnAsteroid_on_edge [OF r']
    by (simp add: v viewport_def)
qed

text \<open>
  C9: an asteroid spawned on the top edge (\<open>y = - 40\<close>) whose velocity step is less than 40
  still has a negative \<open>y\<close> after the step of its first update, and the wrap puts it at
  \<open>y = height\<close>, the bottom edge; likewise one spawned on the left edge (\<open>x = - 40\<close>) is
  put at \<open>x = width\<close>. The step is less than 40 exactly when the viewport's height
  (respectively width) is less than 39920.
\<close>

theorem top_left_spawn_wraps:
  "(\<lfloor>rand s 0 * 4\<rfloor> = 0 \<and> y (velocity (last (asteroids (spawnAsteroid s)))) < 40 \<longrightarrow>
      y (position (last (asteroids (spawnAsteroid s)))) = - 40
      \<and> y (position (last (asteroids (spawnAsteroid s)))) + y (velocity (last (asteroids (spawnAsteroid s)))) < 0
      \<and> y (position (Asteroid_update (canvas s) (last (asteroids (spawnAsteroid s))))) = real (height (canvas s)))
   \<and> (\<lfloor>rand s 0 * 4\<rfloor> = 3 \<and> x (velocity (last (asteroids (spawnAsteroid s)))) < 40 \<longrightarrow>
      x (position (last (asteroids (spawnAsteroid s)))) = - 40
      \<and> x (position (last (asteroids (spawnAsteroid s)))) + x (velocity (last (asteroids (spawnAsteroid s)))) < 0
      \<and> x (position (Asteroid_update (canvas s) (last (asteroids (spawnAsteroid s))))) = real (width (canvas s)))
   \<and> (\<lfloor>rand s 0 * 4\<rfloor> = 0 \<longrightarrow>
        (y (velocity (last (asteroids (spawnAsteroid s)))) < 40) = (height (canvas s) < 39920))
   \<and> (\<lfloor>rand s 0 * 4\<rfloor> = 3 \<longrightarrow>
        (x (velocity (last (asteroids (spawnAsteroid s)))) < 40) = (width (canvas s) < 39920))"
proof -
  let ?ast = "last (asteroids (spawnAsteroid s))"
  have top: "y (position ?ast) = - 40
      \<and> y (position ?ast) + y (velocity ?ast) < 0
      \<and> y (position (Asteroid_update (canvas s) ?ast)) = real (height (canvas s))"
    if e: "\<lfloor>rand s 0 * 4\<rfloor> = 0" and v: "y (velocity ?ast) < 40"
  proof -
    have py: "y (position ?ast) = - 40"
      using e by (simp add: spawnAsteroid_last(4) spawn_point_def)
    have neg: "y (position ?ast) + y (velocity ?ast) < 0"
      using py v by simp
    have "\<not> y (position ?ast) + y (velocity ?ast) > real (height (canvas s))"
      using neg by (simp add: not_less order.strict_implies_order order_trans [of _ 0])
    then show ?thesis
      using py neg by (simp only: Asteroid_update_y if_False if_True simp_thms)
  qed
  have left: "x (position ?ast) = - 40
      \<and> x (position ?ast) + x (velocity ?ast) < 0
      \<and> x (position (Asteroid_update (canvas s) ?ast)) = real (width (canvas s))"
    if e: "\<lfloor>rand s 0 * 4\<rfloor> = 3" and v: "x (velocity ?ast) < 40"
  proof -
    have px: "x (position ?ast) = - 40"
      using e by (simp add: spawnAsteroid_last(4) spawn_point_def)
    have neg: "x (position ?ast) + x (velocity ?ast) < 0"
      using px v by simp
    have "\<not> x (position ?ast) + x (velocity ?ast) > real (width (canvas s))"
      using neg by (simp add: not_less order.strict_implies_order order_trans [of _ 0])
    then show ?thesis
      using px neg by (simp only: Asteroid_update_x if_False if_True simp_thms)
  qed
  have top_iff: "(y (velocity ?ast) < 40) = (height (canvas s) < 39920)"
    if e: "\<lfloor>rand s 0 * 4\<rfloor> = 0"
  proof -
    have "y (velocity ?ast) = (real (height (canvas s)) / 2 + 40) * (2 / 1000)"
      using e by (simp add: spawnAsteroid_last(5) spawn_point_def)
    then have "(y (velocity ?ast) < 40) = (real (height (canvas s)) < 39920)"
      by auto
    then show ?thesis by simp
  qed
  have left_iff: "(x (velocity ?ast) < 40) = (width (canvas s) < 39920)"
    if e: "\<lfloor>rand s 0 * 4\<rfloor> = 3"
  proof -
    have "x (velocity ?ast) = (real (width (canvas s)) / 2 + 40) * (2 / 1000)"
      using e by (simp add: spawnAsteroid_last(5) spawn_point_def)
    then have "(x (velocity ?ast) < 40) = (real (width (canvas s)) < 39920)"
      by auto
    then show ?thesis by simp
  qed
  show ?thesis
    using top left top_iff left_iff by blast
qed

text \<open>In the 800 by 600 viewport: a top spawn ends at \<open>y = 600\<close>, a left spawn at \<open>x = 800\<close>.\<close>

theorem top_left_spawn_wraps_witness:
  "y (velocity (last (asteroids (spawnAsteroid (arena\<lparr>rand := \<lambda>n. 1 / 8\<rparr>))))) = 68 / 100
   \<and> y (position (last (asteroids (spawnAsteroid (arena\<lparr>rand := \<lambda>n. 1 / 8\<rparr>))))) = - 40
   \<and> y (position (Asteroid_update viewport (last (asteroids (spawnAsteroid (arena\<lparr>rand := \<lambda>n. 1 / 8\<rparr>)))))) = 600
   \<and> x (velocity (last (asteroids (spawnAsteroid (arena\<lparr>rand := \<lambda>n. 7 / 8\<rparr>))))) = 88 / 100
   \<and> x (position (last (asteroids (spawnAsteroid (arena\<lparr>rand := \<lambda>n. 7 / 8\<rparr>))))) = - 40
   \<and> x (position (Asteroid_update viewport (last (asteroids (spawnAsteroid (arena\<lparr>rand := \<lambda>n. 7 / 8\<rparr>)))))) = 800"
proof -
  have t: "\<lfloor>rand (arena\<lparr>rand := \<lambda>n. 1 / 8\<rparr>) 0 * 4\<rfloor> = 0" "canvas (arena\<lparr>rand := \<lambda>n. 1 / 8\<rparr>) = viewport"
    by (simp_all add: arena_def)
  have l: "\<lfloor>rand (arena\<lparr>rand := \<lambda>n. 7 / 8\<rparr>) 0 * 4\<rfloor> = 3" "canvas (arena\<lparr>rand := \<lambda>n. 7 / 8\<rparr>) = viewport"
    by (simp_all add: arena_def)
  have vt: "y (velocity (last (asteroids (spawnAsteroid (arena\<lparr>rand := \<lambda>n. 1 / 8\<rparr>))))) = 68 / 100"
    by (simp add: spawnAsteroid_last(5) spawn_point_def arena_def viewport_def)
  have vl: "x (velocity (last (asteroids (spawnAsteroid (arena\<lparr>rand := \<lambda>n. 7 / 8\<rparr>))))) = 88 / 100"
    by (simp add: spawnAsteroid_last(5) spawn_point_def arena_def viewport_def)
  show ?thesis
    using top_left_spawn_wraps [of "arena\<lparr>rand := \<lambda>n. 1 / 8\<rparr>"]
          top_left_spawn_wraps [of "arena\<lparr>rand := \<lambda>n. 7 / 8\<rparr>"]
    by (simp add: t l vt vl viewport_def)
qed

subsection \<open>Projectiles against asteroids\<close>

lemma Math_hypot_less: "(Math_hypot u v < r) = (0 < r \<and> u\<^sup>2 + v\<^sup>2 < r\<^sup>2)"
proof (cases "0 < r")
  case True
  then have "r = sqrt (r\<^sup>2)" by simp
  then have "(sqrt (u\<^sup>2 + v\<^sup>2) < r) = (sqrt (u\<^sup>2 + v\<^sup>2) < sqrt (r\<^sup>2))" by simp
  also have "\<dots> = (u\<^sup>2 + v\<^sup>2 < r\<^sup>2)" by (rule real_sqrt_less_iff)
  finally show ?thesis using True by (simp add: Math_hypot_def)
next
  case False
  have "0 \<le> Math_hypot u v" by (rule Math_hypot_nonneg)
  with False show ?thesis by simp
qed

lemma vec_eta: "\<lparr>x = x v, y = y v\<rparr> = v"
  by simp

lemma length_splice1: "i < length xs \<Longrightarrow> length (splice1 i xs) + 1 = length xs"
  by (simp add: splice1_def)

lemma splice1_append: "i < length xs \<Longrightarrow> splice1 i (xs @ ys) = splice1 i xs @ ys"
  by (simp add: splice1_def)

lemma projectileAsteroid_hit_projectiles:
  "projectiles (projectileAsteroid_hit pIndex aIndex pr ast s) = splice1 pIndex (projectiles s)"
  by (simp add: projectileAsteroid_hit_def Let_def case_prod_beta)

lemma projectileAsteroid_hit_player:
  "player (projectileAsteroid_hit pIndex aIndex pr ast s) = (player s)\<lparr>score := score (player s) + 10\<rparr>"
  by (simp add: projectileAsteroid_hit_def Let_def case_prod_beta)

lemma projectileAsteroid_hit_asteroids:
  "asteroids (projectileAsteroid_hit pIndex aIndex pr ast s) =
     (if radius ast > 15
      then splice1 aIndex (asteroids s @
             [fst (new_Asteroid (position ast) (radius ast / 2) (rand s)),
              fst (new_Asteroid (position ast) (radius ast / 2)
                     (snd (new_Asteroid (position ast) (radius ast / 2) (rand s))))])
      else splice1 aIndex (asteroids s))"
  by (simp add: projectileAsteroid_hit_def Let_def case_prod_beta vec_eta)

lemma projectileAsteroid_hit_particles:
  "\<exists>ps. particles (projectileAsteroid_hit pIndex aIndex pr ast s) = particles s @ ps
        \<and> length ps = 10 \<and> list_all (\<lambda>p. position p = position pr) ps"
proof -
  define s3 where "s3 = (let s1 = s\<lparr>projectiles := splice1 pIndex (projectiles s)\<rparr>;
          s2 = s1\<lparr>player := (player s1)\<lparr>score := score (player s1) + 10\<rparr>\<rparr>
       in (if radius ast > 15 then
                  (let (c1, g1) = new_Asteroid \<lparr>x = x (position ast), y = y (position ast)\<rparr>
                                    (radius ast / 2) (rand s2);
                       (c2, g2) = new_Asteroid \<lparr>x = x (position ast), y = y (position ast)\<rparr>
                                    (radius ast / 2) g1
                   in s2\<lparr>asteroids := (asteroids s2 @ [c1]) @ [c2], rand := g2\<rparr>)
                else s2))"
  have p3: "particles s3 = particles s"
    by (simp add: s3_def Let_def case_prod_beta)
  have "particles (projectileAsteroid_hit pIndex aIndex pr ast s)
          = particles (createExplosion (position pr) 10 s3)"
    by (simp add: projectileAsteroid_hit_def s3_def Let_def)
  with createExplosion_particles [of "position pr" 10 s3] p3 show ?thesis
    by simp
qed

lemma projectileAsteroid_hit_split:
  assumes "aIndex < length (asteroids s)"
  shows "(radius ast > 15 \<longrightarrow>
           (\<exists>c1 c2. asteroids (projectileAsteroid_hit pIndex aIndex pr ast s)
                       = take aIndex (asteroids s) @ drop (Suc aIndex) (asteroids s) @ [c1, c2]
                  \<and> radius c1 = radius ast / 2 \<and> radius c2 = radius ast / 2
                  \<and> position c1 = position ast \<and> position c2 = position ast)
           \<and> length (asteroids (projectileAsteroid_hit pIndex aIndex pr ast s))
               = length (asteroids s) + 1)
       \<and> (radius ast \<le> 15 \<longrightarrow>
           asteroids (projectileAsteroid_hit pIndex aIndex pr ast s)
             = take aIndex (asteroids s) @ drop (Suc aIndex) (asteroids s)
           \<and> length (asteroids (projectileAsteroid_hit pIndex aIndex pr ast s)) + 1
               = length (asteroids s))"
proof -
  let ?c1 = "fst (new_Asteroid (position ast) (radius ast / 2) (rand s))"
  let ?c2 = "fst (new_Asteroid (position ast) (radius ast / 2)
                     (snd (new_Asteroid (position ast) (radius ast / 2) (rand s))))"
  have big: "asteroids (projectileAsteroid_hit pIndex aIndex pr ast s)
       = take aIndex (asteroids s) @ drop (Suc aIndex) (asteroids s) @ [?c1, ?c2]"
    if "radius ast > 15"
    using that assms by (simp add: projectileAsteroid_hit_asteroids splice1_def)
  have small: "asteroids (projectileAsteroid_hit pIndex aIndex pr ast s)
       = take aIndex (asteroids s) @ drop (Suc aIndex) (asteroids s)"
    if "radius ast \<le> 15"
    using that by (simp add: projectileAsteroid_hit_asteroids splice1_def)
  have lbig: "length (asteroids (projectileAsteroid_hit pIndex aIndex pr ast s))
               = length (asteroids s) + 1" if "radius ast > 15"
    using assms by (simp add: big [OF that])
  have lsmall: "length (asteroids (projectileAsteroid_hit pIndex aIndex pr ast s)) + 1
               = length (asteroids s)" if "radius ast \<le> 15"
    using assms by (simp add: small [OF that])
  have ex: "\<exists>c1 c2. asteroids (projectileAsteroid_hit pIndex aIndex pr ast s)
                       = take aIndex (asteroids s) @ drop (Suc aIndex) (asteroids s) @ [c1, c2]
                  \<and> radius c1 = radius ast / 2 \<and> radius c2 = radius ast / 2
                  \<and> position c1 = position ast \<and> position c2 = position ast"
    if "radius ast > 15"
    using big [OF that] new_Asteroid_position new_Asteroid_radius by blast
  show ?thesis
    using ex lbig small lsmall by blast
qed

text \<open>
  C3: when the collision resolver handles the hit of a projectile on the asteroid at
  \<open>aIndex\<close>, of radius \<open>R\<close>: if \<open>R > 15\<close>, the asteroids afterwards are the old ones
  without the struck one, followed by exactly two new asteroids of radius \<open>R / 2\<close> at the
  position of the struck one, so there is one asteroid more; if \<open>R \<le> 15\<close>, they are the
  old ones without the struck one, so there is one asteroid less.
\<close>

theorem split_on_projectile_hit:
  assumes "aIndex < length (asteroids s)"
  shows "(radius (asteroids s ! aIndex) > 15 \<longrightarrow>
           (\<exists>c1 c2. asteroids (projectileAsteroid_hit pIndex aIndex pr (asteroids s ! aIndex) s)
                       = take aIndex (asteroids s) @ drop (Suc aIndex) (asteroids s) @ [c1, c2]
                  \<and> radius c1 = radius (asteroids s ! aIndex) / 2
                  \<and> radius c2 = radius (asteroids s ! aIndex) / 2
                  \<and> position c1 = position (asteroids s ! aIndex)
                  \<and> position c2 = position (asteroids s ! aIndex))
           \<and> length (asteroids (projectileAsteroid_hit pIndex aIndex pr (asteroids s ! aIndex) s))
               = length (asteroids s) + 1)
       \<and> (radius (asteroids s ! aIndex) \<le> 15 \<longrightarrow>
           asteroids (projectileAsteroid_hit pIndex aIndex pr (asteroids s ! aIndex) s)
             = take aIndex (asteroids s) @ drop (Suc aIndex) (asteroids s)
           \<and> length (asteroids (projectileAsteroid_hit pIndex aIndex pr (asteroids s ! aIndex) s)) + 1
               = length (asteroids s))"
  by (rule projectileAsteroid_hit_split [OF assms])

text \<open>Hitting the boulder leaves three asteroids of two, hitting the pebble leaves one.\<close>

theorem split_on_projectile_hit_witness:
  "length (asteroids (projectileAsteroid_hit 0 0 shot boulder field)) = 3
   \<and> length (asteroids (projectileAsteroid_hit 0 1 shot pebble field)) = 1"
proof -
  have l: "0 < length (asteroids field)" "1 < length (asteroids field)"
    by (simp_all add: field_def)
  have v: "asteroids field ! 0 = boulder" "asteroids field ! 1 = pebble"
      "length (asteroids field) = 2"
    by (simp_all add: field_def)
  have r: "radius boulder > 15" "radius pebble \<le> 15"
    by (simp_all add: boulder_def pebble_def)
  from split_on_projectile_hit [OF l(1), where pIndex = 0 and pr = shot] r(1)
  have big: "length (asteroids (projectileAsteroid_hit 0 0 shot boulder field))
               = length (asteroids field) + 1"
    unfolding v(1) by blast
  from split_on_projectile_hit [OF l(2), where pIndex = 0 and pr = shot] r(2)
  have small: "length (asteroids (projectileAsteroid_hit 0 1 shot pebble field)) + 1
               = length (asteroids field)"
    unfolding v(2) by blast
  show ?thesis
    using big small by (simp add: v(3))
qed

lemma asteroid_loop_miss:
  "(\<forall>j<n. \<not> center_distance pr (asteroids s ! j) < radius (asteroids s ! j))
     \<Longrightarrow> asteroid_loop pIndex pr n s = s"
  by (induction n) (simp_all add: Let_def)

lemma asteroid_loop_hit:
  "j < n \<Longrightarrow> center_distance pr (asteroids s ! j) < radius (asteroids s ! j)
     \<Longrightarrow> (\<forall>k. j < k \<and> k < n \<longrightarrow> \<not> center_distance pr (asteroids s ! k) < radius (asteroids s ! k))
     \<Longrightarrow> asteroid_loop pIndex pr n s = projectileAsteroid_hit pIndex j pr (asteroids s ! j) s"
proof (induction n)
  case 0
  then show ?case by simp
next
  case (Suc n)
  show ?case
  proof (cases "j = n")
    case True
    with Suc.prems show ?thesis by (simp add: Let_def)
  next
    case False
    with Suc.prems have jn: "j < n" by simp
    from Suc.prems jn have miss: "\<not> center_distance pr (asteroids s ! n) < radius (asteroids s ! n)"
      by simp
    from Suc.prems have "\<forall>k. j < k \<and> k < n \<longrightarrow>
        \<not> center_distance pr (asteroids s ! k) < radius (asteroids s ! k)"
      by simp
    with Suc.IH [OF jn Suc.prems(2)] miss show ?thesis
      by (simp add: Let_def)
  qed
qed

lemma asteroid_loop_cases:
  "asteroid_loop pIndex pr n s = s
   \<or> (\<exists>j<n. asteroid_loop pIndex pr n s = projectileAsteroid_hit pIndex j pr (asteroids s ! j) s)"
proof (induction n)
  case 0
  show ?case by simp
next
  case (Suc n)
  show ?case
  proof (cases "center_distance pr (asteroids s ! n) < radius (asteroids s ! n)")
    case True
    then have "asteroid_loop pIndex pr (Suc n) s
                 = projectileAsteroid_hit pIndex n pr (asteroids s ! n) s"
      by (simp add: Let_def)
    then show ?thesis by blast
  next
    case False
    then have "asteroid_loop pIndex pr (Suc n) s = asteroid_loop pIndex pr n s"
      by (simp add: Let_def)
    with Suc.IH show ?thesis using less_Suc_eq by auto
  qed
qed

lemma projectile_loop_conservation:
  "n \<le> length (projectiles s) \<Longrightarrow>
     score (player (projectile_loop n s)) + 10 * int (length (projectiles (projectile_loop n s)))
       = score (player s) + 10 * int (length (projectiles s))"
proof (induction n arbitrary: s)
  case 0
  show ?case by simp
next
  case (Suc n)
  let ?s' = "asteroid_loop n (projectiles s ! n) (length (asteroids s)) s"
  from asteroid_loop_cases [of n "projectiles s ! n" "length (asteroids s)" s]
  have step: "score (player ?s') + 10 * int (length (projectiles ?s'))
                = score (player s) + 10 * int (length (projectiles s))
              \<and> n \<le> length (projectiles ?s')"
  proof
    assume "?s' = s"
    with Suc.prems show ?thesis by simp
  next
    assume "\<exists>j<length (asteroids s). ?s' = projectileAsteroid_hit n j (projectiles s ! n) (asteroids s ! j) s"
    then obtain j where h: "?s' = projectileAsteroid_hit n j (projectiles s ! n) (asteroids s ! j) s"
      by blast
    from Suc.prems have n: "n < length (projectiles s)" by simp
    have "length (projectiles ?s') + 1 = length (projectiles s)"
      unfolding h projectileAsteroid_hit_projectiles using n by (rule length_splice1)
    moreover have "score (player ?s') = score (player s) + 10"
      unfolding h by (simp add: projectileAsteroid_hit_player)
    ultimately show ?thesis using n by auto
  qed
  then have "score (player (projectile_loop n ?s')) + 10 * int (length (projectiles (projectile_loop n ?s')))
       = score (player ?s') + 10 * int (length (projectiles ?s'))"
    using Suc.IH [of ?s'] by blast
  with step show ?case by (simp add: Let_def)
qed

subsection \<open>The player against asteroids\<close>

lemma showGameOverUI_fields [simp]:
  "player (showGameOverUI s) = player s"
  "asteroids (showGameOverUI s) = asteroids s"
  "particles (showGameOverUI s) = particles s"
  "projectiles (showGameOverUI s) = projectiles s"
  "isGameOver (showGameOverUI s) = isGameOver s"
  "canvas (showGameOverUI s) = canvas s"
  "frameRequests (showGameOverUI s) = frameRequests s"
  "gameOverDivs (showGameOverUI s) = gameOverDivs s @ [3]"
  "countdowns (showGameOverUI s) = countdowns s @ [3]"
  by (simp_all add: showGameOverUI_def startCountdown_def)

lemma playerAsteroid_body_miss:
  "\<not> center_distance (player s) (asteroids s ! i) < radius (asteroids s ! i) + 15
     \<Longrightarrow> playerAsteroid_body i s = s"
  by (simp add: playerAsteroid_body_def Let_def)

lemma playerAsteroid_body_lives:
  "center_distance (player s) (asteroids s ! i) < radius (asteroids s ! i) + 15
     \<Longrightarrow> lives (player (playerAsteroid_body i s)) = max 0 (lives (player s) - 1)"
  by (simp add: playerAsteroid_body_def Let_def)

lemma playerAsteroid_body_position:
  "position (player (playerAsteroid_body i s)) = position (player s)"
  by (simp add: playerAsteroid_body_def Let_def)

lemma playerAsteroid_body_asteroids:
  "center_distance (player s) (asteroids s ! i) < radius (asteroids s ! i) + 15
     \<Longrightarrow> asteroids (playerAsteroid_body i s) = splice1 i (asteroids s)"
  by (simp add: playerAsteroid_body_def Let_def)

lemma playerAsteroid_body_particles:
  assumes "center_distance (player s) (asteroids s ! i) < radius (asteroids s ! i) + 15"
  shows "\<exists>ps. particles (playerAsteroid_body i s) = particles s @ ps
        \<and> length ps = 20 \<and> list_all (\<lambda>p. position p = position (player s)) ps"
proof -
  define s2 where "s2 =
     (if lives (player s) - 1 \<le> 0
      then showGameOverUI (s\<lparr>player := (player s)\<lparr>lives := lives (player s) - 1\<rparr>,
                              isGameOver := True,
                              player := (player s)\<lparr>lives := 0\<rparr>\<rparr>)
      else s\<lparr>player := (player s)\<lparr>lives := lives (player s) - 1\<rparr>\<rparr>)"
  have p2: "particles s2 = particles s" "position (player s2) = position (player s)"
    by (simp_all add: s2_def)
  have "particles (playerAsteroid_body i s)
          = particles (createExplosion (position (player s2)) 20 s2)"
    using assms by (simp add: playerAsteroid_body_def s2_def Let_def)
  with createExplosion_particles [of "position (player s2)" 20 s2] p2 show ?thesis
    by simp
qed

lemma playerAsteroid_body_hit:
  assumes "center_distance (player s) (asteroids s ! i) < radius (asteroids s ! i) + 15"
  shows "isGameOver (playerAsteroid_body i s) = (isGameOver s \<or> lives (player s) - 1 \<le> 0)"
    and "countdowns (playerAsteroid_body i s)
           = (if lives (player s) - 1 \<le> 0 then countdowns s @ [3] else countdowns s)"
    and "gameOverDivs (playerAsteroid_body i s)
           = (if lives (player s) - 1 \<le> 0 then gameOverDivs s @ [3] else gameOverDivs s)"
    and "projectiles (playerAsteroid_body i s) = projectiles s"
    and "player (playerAsteroid_body i s) = (player s)\<lparr>lives := max 0 (lives (player s) - 1)\<rparr>"
    and "frameRequests (playerAsteroid_body i s) = frameRequests s"
  using assms by (simp_all add: playerAsteroid_body_def Let_def max_def)

subsection \<open>Countdown and restart\<close>

lemma particle_loop_fields [simp]:
  "player (particle_loop n s) = player s"
  "asteroids (particle_loop n s) = asteroids s"
  "projectiles (particle_loop n s) = projectiles s"
  "isGameOver (particle_loop n s) = isGameOver s"
  "canvas (particle_loop n s) = canvas s"
  "countdowns (particle_loop n s) = countdowns s"
  "gameOverDivs (particle_loop n s) = gameOverDivs s"
  "frameRequests (particle_loop n s) = frameRequests s"
  by (induction n arbitrary: s) (simp_all add: Let_def)

lemma restartGame_eq:
  "restartGame s =
     s\<lparr>gameOverDivs := tl (gameOverDivs s), isGameOver := False,
       player := (player s)\<lparr>lives := 3, score := 0,
                   position := \<lparr>x = real (width (canvas s)) / 2, y = real (height (canvas s)) / 2\<rparr>,
                   velocity := \<lparr>x = 0, y = 0\<rparr>\<rparr>,
       asteroids := [], projectiles := [], particles := [],
       frameRequests := frameRequests s + 1\<rparr>"
proof -
  have tl: "(case gameOverDivs s of [] \<Rightarrow> [] | ui # rest \<Rightarrow> rest) = tl (gameOverDivs s)"
    by (cases "gameOverDivs s") simp_all
  show ?thesis
    unfolding restartGame_def animate_def checkCollisions_def Let_def tl
    by (simp add: Player_update_def Let_def)
qed

lemma keydown_fields [simp]:
  "isGameOver (keydown c s) = isGameOver s"
  "countdowns (keydown c s) = countdowns s"
  "canvas (keydown c s) = canvas s"
  "bestScore (player (keydown c s)) = bestScore (player s)"
  "score (player (keydown c s)) = score (player s)"
  "lives (player (keydown c s)) = lives (player s)"
  by (cases c; simp)+

lemma keyup_fields [simp]:
  "isGameOver (keyup c s) = isGameOver s"
  "countdowns (keyup c s) = countdowns s"
  "canvas (keyup c s) = canvas s"
  "bestScore (player (keyup c s)) = bestScore (player s)"
  "score (player (keyup c s)) = score (player s)"
  "lives (player (keyup c s)) = lives (player s)"
  by (cases c; simp)+

lemma movementInterval_fields [simp]:
  "isGameOver (movementInterval s) = isGameOver s"
  "countdowns (movementInterval s) = countdowns s"
  "canvas (movementInterval s) = canvas s"
  "bestScore (player (movementInterval s)) = bestScore (player s)"
  "score (player (movementInterval s)) = score (player s)"
  "lives (player (movementInterval s)) = lives (player s)"
  by (simp_all add: movementInterval_def Let_def)

lemma step_other_while_game_over:
  assumes "other_event e" "isGameOver s"
  shows "isGameOver (step e s) \<and> countdowns (step e s) = countdowns s
         \<and> canvas (step e s) = canvas s
         \<and> bestScore (player (step e s)) = bestScore (player s)"
  using assms by (cases e) (simp_all add: other_event_def animate_def spawnInterval_def)

lemma run_append: "run (es @ es') s = run es' (run es s)"
  by (induction es arbitrary: s) simp_all

lemma run_other_while_game_over:
  assumes "list_all other_event es" "isGameOver s"
  shows "isGameOver (run es s) \<and> countdowns (run es s) = countdowns s
         \<and> canvas (run es s) = canvas s
         \<and> bestScore (player (run es s)) = bestScore (player s)"
  using assms
proof (induction es arbitrary: s)
  case Nil
  then show ?case by simp
next
  case (Cons e es)
  from Cons.prems have e: "other_event e" and es: "list_all other_event es" by simp_all
  note st = step_other_while_game_over [OF e Cons.prems(2)]
  from st have g: "isGameOver (step e s)" by simp
  from Cons.IH [OF es g] st show ?case by simp
qed

lemma countdownInterval_pending:
  assumes "k < length (countdowns s)" "countdowns s ! k - 1 \<noteq> 0"
  shows "isGameOver (countdownInterval k s) = isGameOver s"
    and "countdowns (countdownInterval k s) = (countdowns s)[k := countdowns s ! k - 1]"
    and "canvas (countdownInterval k s) = canvas s"
    and "player (countdownInterval k s) = player s"
  using assms by (simp_all add: countdownInterval_def Let_def split: list.splits)

lemma countdownInterval_fires:
  assumes "countdowns s ! k - 1 = 0"
  shows "isGameOver (countdownInterval k s) = False"
    and "lives (player (countdownInterval k s)) = 3"
    and "score (player (countdownInterval k s)) = 0"
    and "bestScore (player (countdownInterval k s)) = bestScore (player s)"
    and "asteroids (countdownInterval k s) = []"
    and "projectiles (countdownInterval k s) = []"
    and "particles (countdownInterval k s) = []"
    and "position (player (countdownInterval k s))
           = \<lparr>x = real (width (canvas s)) / 2, y = real (height (canvas s)) / 2\<rparr>"
    and "velocity (player (countdownInterval k s)) = \<lparr>x = 0, y = 0\<rparr>"
    and "countdowns (countdownInterval k s) = splice1 k ((countdowns s)[k := 0])"
  using assms by (simp_all add: countdownInterval_def Let_def restartGame_eq split: list.splits)

subsection \<open>The score\<close>

lemma playerAsteroid_body_score:
  "score (player (playerAsteroid_body i s)) = score (player s)"
  by (simp add: playerAsteroid_body_def Let_def)

lemma playerAsteroid_loop_score:
  "score (player (playerAsteroid_loop n s)) = score (player s)"
  by (induction n arbitrary: s) (simp_all add: playerAsteroid_body_score)

lemma asteroid_loop_score:
  "score (player (asteroid_loop pIndex pr n s)) = score (player s)
   \<or> score (player (asteroid_loop pIndex pr n s)) = score (player s) + 10"
  using asteroid_loop_cases [of pIndex pr n s]
  by (auto simp: projectileAsteroid_hit_player)

lemma projectile_loop_score:
  "\<exists>m. score (player (projectile_loop n s)) = score (player s) + 10 * int m"
proof (induction n arbitrary: s)
  case 0
  show ?case by simp
next
  case (Suc n)
  let ?s' = "asteroid_loop n (projectiles s ! n) (length (asteroids s)) s"
  from Suc.IH [of ?s'] obtain m where
    m: "score (player (projectile_loop n ?s')) = score (player ?s') + 10 * int m"
    by blast
  from asteroid_loop_score [of n "projectiles s ! n" "length (asteroids s)" s]
  show ?case
  proof
    assume "score (player ?s') = score (player s)"
    with m have "score (player (projectile_loop (Suc n) s)) = score (player s) + 10 * int m"
      by (simp add: Let_def)
    then show ?thesis by blast
  next
    assume "score (player ?s') = score (player s) + 10"
    with m have "score (player (projectile_loop (Suc n) s)) = score (player s) + 10 * int (Suc m)"
      by (simp add: Let_def)
    then show ?thesis by blast
  qed
qed

lemma checkCollisions_score:
  "\<exists>m. score (player (checkCollisions s)) = score (player s) + 10 * int m"
proof -
  let ?s1 = "playerAsteroid_loop (length (asteroids s)) s"
  from projectile_loop_score [of "length (projectiles ?s1)" ?s1]
  show ?thesis
    by (simp add: checkCollisions_def Let_def playerAsteroid_loop_score)
qed

lemma Player_update_score [simp]: "score (Player_update cv p) = score p"
  by (simp add: Player_update_def Let_def)

lemma animate_score:
  "\<exists>m. score (player (animate s)) = score (player s) + 10 * int m"
proof (cases "isGameOver s")
  case True
  then have "score (player (animate s)) = score (player s) + 10 * int 0"
    by (simp add: animate_def)
  then show ?thesis by blast
next
  case False
  let ?s5 = "particle_loop (length (particles s))
     (s\<lparr>frameRequests := frameRequests s + 1,
        player := Player_update (canvas s) (player s),
        projectiles := map Projectile_update (projectiles s),
        asteroids := map (Asteroid_update (canvas s)) (asteroids s)\<rparr>)"
  have "animate s = checkCollisions ?s5"
    using False by (simp add: animate_def Let_def)
  with checkCollisions_score [of ?s5] show ?thesis
    by simp
qed

lemma step_countdown_score:
  "score (player (step (CountdownInterval k) s))
     = (if k < length (countdowns s) \<and> countdowns s ! k - 1 = 0 then 0 else score (player s))"
proof (cases "k < length (countdowns s)")
  case False
  then show ?thesis by simp
next
  case k: True
  show ?thesis
  proof (cases "countdowns s ! k - 1 = 0")
    case True
    with k show ?thesis by (simp add: countdownInterval_fires(3))
  next
    case False
    with k show ?thesis by (simp add: countdownInterval_pending(4))
  qed
qed

lemma step_score_multiple:
  assumes "\<exists>n. score (player s) = 10 * int n"
  shows "\<exists>n. score (player (step e s)) = 10 * int n"
proof (cases e)
  case AnimationFrame
  from assms obtain n where n: "score (player s) = 10 * int n" by blast
  show ?thesis
  proof (cases "frameRequests s = 0")
    case True
    with AnimationFrame assms show ?thesis by simp
  next
    case False
    from animate_score [of "s\<lparr>frameRequests := frameRequests s - 1\<rparr>"] obtain m where
      "score (player (animate (s\<lparr>frameRequests := frameRequests s - 1\<rparr>)))
         = score (player s) + 10 * int m"
      by auto
    with n False AnimationFrame have "score (player (step e s)) = 10 * int (n + m)"
      by simp
    then show ?thesis by blast
  qed
next
  case SpawnInterval
  with assms show ?thesis by (simp add: spawnInterval_def spawnAsteroid_eq)
next
  case MovementInterval
  with assms show ?thesis by simp
next
  case (CountdownInterval k)
  have "score (player (step (CountdownInterval k) s)) = 10 * int 0
        \<or> score (player (step (CountdownInterval k) s)) = score (player s)"
    unfolding step_countdown_score by simp
  with assms CountdownInterval show ?thesis by metis
next
  case (KeyDown c)
  with assms show ?thesis by simp
next
  case (KeyUp c)
  with assms show ?thesis by simp
qed

lemma run_score_multiple:
  "\<exists>n. score (player s) = 10 * int n \<Longrightarrow> \<exists>n. score (player (run es s)) = 10 * int n"
proof (induction es arbitrary: s)
  case Nil
  then show ?case by simp
next
  case (Cons e es)
  from Cons.IH [OF step_score_multiple [OF Cons.prems, of e]] show ?case by simp
qed

lemma loadScript_score: "score (player (loadScript iw ih g)) = 0"
  by (simp add: loadScript_def animate_def checkCollisions_def Let_def new_Player_def)

text \<open>
  C10: in every state the script reaches from loading, by any sequence of callbacks, the
  score is 10 times a natural number. An animation frame adds 10 times a natural number to
  it (10 for each projectile hit, by \<open>projectile_loop_conservation\<close>); the spawn timer, the
  movement timer and the key listeners leave it alone; a firing of a countdown leaves it
  alone unless it restarts the game, and then resets it to 0.
\<close>

theorem score_multiple_of_ten:
  "(\<exists>n. score (player (run es (loadScript iw ih g))) = 10 * int n)
   \<and> (\<exists>n. score (player (step AnimationFrame s)) = score (player s) + 10 * int n)
   \<and> score (player (step SpawnInterval s)) = score (player s)
   \<and> score (player (step MovementInterval s)) = score (player s)
   \<and> score (player (step (KeyDown c) s)) = score (player s)
   \<and> score (player (step (KeyUp c) s)) = score (player s)
   \<and> score (player (step (CountdownInterval k) s))
       = (if k < length (countdowns s) \<and> countdowns s ! k - 1 = 0 then 0 else score (player s))"
proof -
  have "\<exists>n. score (player (loadScript iw ih g)) = 10 * int n"
    by (simp add: loadScript_score)
  then have inv: "\<exists>n. score (player (run es (loadScript iw ih g))) = 10 * int n"
    by (rule run_score_multiple)
  have fr: "\<exists>n. score (player (step AnimationFrame s)) = score (player s) + 10 * int n"
  proof (cases "frameRequests s = 0")
    case True
    then have "score (player (step AnimationFrame s)) = score (player s) + 10 * int 0" by simp
    then show ?thesis by blast
  next
    case False
    with animate_score [of "s\<lparr>frameRequests := frameRequests s - 1\<rparr>"] show ?thesis by simp
  qed
  have sp: "score (player (step SpawnInterval s)) = score (player s)"
    by (simp add: spawnInterval_def spawnAsteroid_eq)
  show ?thesis
    using inv fr sp step_countdown_score [of k s] by simp
qed

text \<open>
  After firing and one frame the score is a multiple of 10; a key or a pending countdown
  leaves the wreck's 70 points, the last firing of the countdown resets them.
\<close>

theorem score_multiple_of_ten_witness:
  "(\<exists>n. score (player (run [KeyDown Space, AnimationFrame] (loadScript 800 600 (\<lambda>n. 1 / 2)))) = 10 * int n)
   \<and> score (player (step (KeyDown Space) wreck)) = 70
   \<and> score (player (step (CountdownInterval 0) wreck)) = 70
   \<and> score (player (step (CountdownInterval 0) (wreck\<lparr>countdowns := [1]\<rparr>))) = 0"
  using score_multiple_of_ten [where es = "[KeyDown Space, AnimationFrame]" and iw = 800 and ih = 600
          and g = "\<lambda>n. 1 / 2" and s = wreck and c = Space and k = 0]
        score_multiple_of_ten [where s = "wreck\<lparr>countdowns := [1]\<rparr>" and k = 0]
  by (simp add: wreck_def ship_def)

subsection \<open>Lives and the transition to game over\<close>

lemma playerAsteroid_body_lives_le:
  assumes "0 \<le> lives (player s)"
  shows "0 \<le> lives (player (playerAsteroid_body i s))
         \<and> lives (player (playerAsteroid_body i s)) \<le> lives (player s)"
proof (cases "center_distance (player s) (asteroids s ! i) < radius (asteroids s ! i) + 15")
  case True
  with assms show ?thesis by (simp add: playerAsteroid_body_lives)
next
  case False
  with assms show ?thesis by (simp add: playerAsteroid_body_miss)
qed

lemma playerAsteroid_loop_lives_le:
  "0 \<le> lives (player s) \<Longrightarrow>
     0 \<le> lives (player (playerAsteroid_loop n s))
     \<and> lives (player (playerAsteroid_loop n s)) \<le> lives (player s)"
proof (induction n arbitrary: s)
  case 0
  then show ?case by simp
next
  case (Suc n)
  note b = playerAsteroid_body_lives_le [OF Suc.prems, of n]
  from b have "0 \<le> lives (player (playerAsteroid_body n s))" by simp
  from Suc.IH [OF this] b show ?case by simp
qed

lemma asteroid_loop_lives:
  "lives (player (asteroid_loop pIndex pr n s)) = lives (player s)"
  using asteroid_loop_cases [of pIndex pr n s]
  by (auto simp: projectileAsteroid_hit_player)

lemma projectile_loop_lives:
  "lives (player (projectile_loop n s)) = lives (player s)"
  by (induction n arbitrary: s) (simp_all add: Let_def asteroid_loop_lives)

lemma checkCollisions_lives_le:
  "0 \<le> lives (player s) \<Longrightarrow>
     0 \<le> lives (player (checkCollisions s))
     \<and> lives (player (checkCollisions s)) \<le> lives (player s)"
  using playerAsteroid_loop_lives_le [of s "length (asteroids s)"]
  by (simp add: checkCollisions_def Let_def projectile_loop_lives)

lemma Player_update_lives [simp]: "lives (Player_update cv p) = lives p"
  by (simp add: Player_update_def Let_def)

lemma animate_lives_le:
  assumes "0 \<le> lives (player s)"
  shows "0 \<le> lives (player (animate s)) \<and> lives (player (animate s)) \<le> lives (player s)"
proof (cases "isGameOver s")
  case True
  with assms show ?thesis by (simp add: animate_def)
next
  case False
  let ?s5 = "particle_loop (length (particles s))
     (s\<lparr>frameRequests := frameRequests s + 1,
        player := Player_update (canvas s) (player s),
        projectiles := map Projectile_update (projectiles s),
        asteroids := map (Asteroid_update (canvas s)) (asteroids s)\<rparr>)"
  have eq: "animate s = checkCollisions ?s5"
    using False by (simp add: animate_def Let_def)
  have "0 \<le> lives (player ?s5)" using assms by simp
  from checkCollisions_lives_le [OF this] show ?thesis
    unfolding eq by simp
qed

text \<open>
  The part of C1 that the code keeps: the lives are never negative after a callback, and no
  callback other than a restarting countdown raises them.
\<close>

lemma lives_never_increase:
  assumes "0 \<le> lives (player s)" "other_event e"
  shows "0 \<le> lives (player (step e s)) \<and> lives (player (step e s)) \<le> lives (player s)"
proof (cases e)
  case AnimationFrame
  show ?thesis
  proof (cases "frameRequests s = 0")
    case True
    with AnimationFrame assms show ?thesis by simp
  next
    case False
    have "0 \<le> lives (player (s\<lparr>frameRequests := frameRequests s - 1\<rparr>))"
      using assms by simp
    from animate_lives_le [OF this] AnimationFrame False show ?thesis by simp
  qed
next
  case SpawnInterval
  with assms show ?thesis by (simp add: spawnInterval_def spawnAsteroid_eq)
next
  case MovementInterval
  with assms show ?thesis by simp
next
  case (CountdownInterval k)
  with assms show ?thesis by (simp add: other_event_def)
next
  case (KeyDown c)
  with assms show ?thesis by simp
next
  case (KeyUp c)
  with assms show ?thesis by simp
qed

lemma lives_restart:
  "lives (player (step (CountdownInterval k) s))
     = (if k < length (countdowns s) \<and> countdowns s ! k - 1 = 0 then 3 else lives (player s))"
proof (cases "k < length (countdowns s)")
  case False
  then show ?thesis by simp
next
  case k: True
  show ?thesis
  proof (cases "countdowns s ! k - 1 = 0")
    case True
    with k show ?thesis by (simp add: countdownInterval_fires(2))
  next
    case False
    with k show ?thesis by (simp add: countdownInterval_pending(4))
  qed
qed

lemma last_life_collisions:
  "isGameOver (checkCollisions last_life)"
  "lives (player (checkCollisions last_life)) = 0"
  "gameOverDivs (checkCollisions last_life) = [3, 3]"
  "countdowns (checkCollisions last_life) = [3, 3]"
  "frameRequests (checkCollisions last_life) = 1"
proof -
  let ?s1 = "playerAsteroid_body (Suc 0) last_life"
  let ?s2 = "playerAsteroid_body 0 ?s1"
  have c1: "center_distance (player last_life) (asteroids last_life ! Suc 0)
              < radius (asteroids last_life ! Suc 0) + 15"
    by (simp add: last_life_def ship_def boulder_def Math_hypot_less)
  have a1: "asteroids ?s1 = [boulder\<lparr>position := \<lparr>x = 390, y = 300\<rparr>\<rparr>]"
    by (simp add: playerAsteroid_body_asteroids [OF c1]) (simp add: last_life_def splice1_def)
  have p1: "player ?s1 = ship\<lparr>lives := 0\<rparr>"
    by (simp add: playerAsteroid_body_hit(5) [OF c1]) (simp add: last_life_def)
  have c2: "center_distance (player ?s1) (asteroids ?s1 ! 0) < radius (asteroids ?s1 ! 0) + 15"
    unfolding a1 p1 by (simp add: ship_def boulder_def Math_hypot_less)
  have f1: "isGameOver ?s1" "countdowns ?s1 = [3]" "gameOverDivs ?s1 = [3]" "projectiles ?s1 = []"
      "frameRequests ?s1 = 1"
    by (simp_all add: playerAsteroid_body_hit [OF c1]) (simp_all add: last_life_def arena_def)
  have f2: "isGameOver ?s2" "countdowns ?s2 = [3, 3]" "gameOverDivs ?s2 = [3, 3]"
       "projectiles ?s2 = []" "lives (player ?s2) = 0" "frameRequests ?s2 = 1"
    by (simp_all add: playerAsteroid_body_hit [OF c2] f1 p1)
  have "checkCollisions last_life = projectile_loop (length (projectiles ?s2)) ?s2"
    by (simp add: checkCollisions_def Let_def last_life_def numeral_2_eq_2)
  then have eq: "checkCollisions last_life = ?s2"
    by (simp add: f2)
  show "isGameOver (checkCollisions last_life)"
    "lives (player (checkCollisions last_life)) = 0"
    "gameOverDivs (checkCollisions last_life) = [3, 3]"
    "countdowns (checkCollisions last_life) = [3, 3]"
    "frameRequests (checkCollisions last_life) = 1"
    unfolding eq by (simp_all add: f2)
qed

text \<open>
  C1 fails on the code. With one life left and two asteroids within reach of the ship, one
  pass of \<^verbatim>\<open>checkCollisions\<close> sets the game over at the first asteroid and enters game over
  again at the second: afterwards there are two \<^verbatim>\<open>gameOverDiv\<close> elements and two running
  countdowns, where the claim allows one of each.
\<close>

theorem game_over_entered_twice:
  "isGameOver (checkCollisions last_life)
   \<and> lives (player (checkCollisions last_life)) = 0
   \<and> gameOverDivs (checkCollisions last_life) = [3, 3]
   \<and> countdowns (checkCollisions last_life) = [3, 3]"
  by (simp add: last_life_collisions)

lemma countdownInterval_frameRequests:
  "k < length (countdowns s) \<Longrightarrow>
     frameRequests (countdownInterval k s)
       = (if countdowns s ! k - 1 = 0 then frameRequests s + 1 else frameRequests s)"
  by (simp add: countdownInterval_def Let_def restartGame_eq split: list.splits)

text \<open>
  What follows from the second transition: both countdowns run out and each calls
  \<^verbatim>\<open>restartGame\<close>, which calls \<^verbatim>\<open>animate\<close>; two animation frames are then requested at any
  time instead of one, so two animation loops run side by side.
\<close>

lemma two_animation_loops:
  "frameRequests
     (run [AnimationFrame, CountdownInterval 0, CountdownInterval 1, CountdownInterval 0,
           CountdownInterval 1, CountdownInterval 0, CountdownInterval 0]
        (checkCollisions last_life)) = 2"
proof -
  define t1 where "t1 = step AnimationFrame (checkCollisions last_life)"
  define t2 where "t2 = countdownInterval 0 t1"
  define t3 where "t3 = countdownInterval (Suc 0) t2"
  define t4 where "t4 = countdownInterval 0 t3"
  define t5 where "t5 = countdownInterval (Suc 0) t4"
  define t6 where "t6 = countdownInterval 0 t5"
  define t7 where "t7 = countdownInterval 0 t6"
  have s1: "countdowns t1 = [3, 3]" "frameRequests t1 = 0"
    by (simp_all add: t1_def last_life_collisions animate_def)
  have s2: "countdowns t2 = [2, 3]" "frameRequests t2 = 0"
    by (simp_all add: t2_def countdownInterval_pending(2) countdownInterval_frameRequests s1)
  have s3: "countdowns t3 = [2, 2]" "frameRequests t3 = 0"
    by (simp_all add: t3_def countdownInterval_pending(2) countdownInterval_frameRequests s2)
  have s4: "countdowns t4 = [1, 2]" "frameRequests t4 = 0"
    by (simp_all add: t4_def countdownInterval_pending(2) countdownInterval_frameRequests s3)
  have s5: "countdowns t5 = [1, 1]" "frameRequests t5 = 0"
    by (simp_all add: t5_def countdownInterval_pending(2) countdownInterval_frameRequests s4)
  have s6: "countdowns t6 = [1]" "frameRequests t6 = 1"
    by (simp_all add: t6_def countdownInterval_fires(10) countdownInterval_frameRequests s5
          splice1_def)
  have s7: "frameRequests t7 = 2"
    by (simp add: t7_def countdownInterval_frameRequests s6)
  have r1: "run [AnimationFrame, CountdownInterval 0, CountdownInterval 1, CountdownInterval 0,
           CountdownInterval 1, CountdownInterval 0, CountdownInterval 0]
           (checkCollisions last_life)
         = run [CountdownInterval 0, CountdownInterval 1, CountdownInterval 0,
           CountdownInterval 1, CountdownInterval 0, CountdownInterval 0] t1"
    by (simp only: run.simps t1_def)
  have r2: "run [CountdownInterval 0, CountdownInterval 1, CountdownInterval 0,
           CountdownInterval 1, CountdownInterval 0, CountdownInterval 0] t1
         = run [CountdownInterval 1, CountdownInterval 0,
           CountdownInterval 1, CountdownInterval 0, CountdownInterval 0] t2"
    by (simp add: t2_def s1)
  have r3: "run [CountdownInterval 1, CountdownInterval 0,
           CountdownInterval 1, CountdownInterval 0, CountdownInterval 0] t2
         = run [CountdownInterval 0, CountdownInterval 1, CountdownInterval 0, CountdownInterval 0] t3"
    by (simp add: t3_def s2)
  have r4: "run [CountdownInterval 0, CountdownInterval 1, CountdownInterval 0, CountdownInterval 0] t3
         = run [CountdownInterval 1, CountdownInterval 0, CountdownInterval 0] t4"
    by (simp add: t4_def s3)
  have r5: "run [CountdownInterval 1, CountdownInterval 0, CountdownInterval 0] t4
         = run [CountdownInterval 0, CountdownInterval 0] t5"
    by (simp add: t5_def s4)
  have r6: "run [CountdownInterval 0, CountdownInterval 0] t5 = run [CountdownInterval 0] t6"
    by (simp add: t6_def s5)
  have r7: "run [CountdownInterval 0] t6 = t7"
    by (simp add: t7_def s6)
  show ?thesis
    unfolding r1 r2 r3 r4 r5 r6 r7 by (rule s7)
qed

subsection \<open>Frames and the player's velocity\<close>

lemma playerAsteroid_body_velocity:
  "velocity (player (playerAsteroid_body i s)) = velocity (player s)"
  by (simp add: playerAsteroid_body_def Let_def)

lemma playerAsteroid_loop_velocity:
  "velocity (player (playerAsteroid_loop n s)) = velocity (player s)"
  by (induction n arbitrary: s) (simp_all add: playerAsteroid_body_velocity)

lemma asteroid_loop_velocity:
  "velocity (player (asteroid_loop pIndex pr n s)) = velocity (player s)"
  using asteroid_loop_cases [of pIndex pr n s]
  by (auto simp: projectileAsteroid_hit_player)

lemma projectile_loop_velocity:
  "velocity (player (projectile_loop n s)) = velocity (player s)"
  by (induction n arbitrary: s) (simp_all add: Let_def asteroid_loop_velocity)

text \<open>
  The collision pass does not touch the player's velocity, so a frame of a running game
  changes it exactly as \<^verbatim>\<open>Player.update\<close> does: by the friction alone. Thrust comes from
  the movement timer only.
\<close>

lemma animate_velocity:
  assumes "\<not> isGameOver s"
  shows "velocity (player (animate s)) = velocity (Player_update (canvas s) (player s))"
proof -
  let ?s5 = "particle_loop (length (particles s))
     (s\<lparr>frameRequests := frameRequests s + 1,
        player := Player_update (canvas s) (player s),
        projectiles := map Projectile_update (projectiles s),
        asteroids := map (Asteroid_update (canvas s)) (asteroids s)\<rparr>)"
  have eq: "animate s = checkCollisions ?s5"
    using assms by (simp add: animate_def Let_def)
  show ?thesis
    unfolding eq
    by (simp add: checkCollisions_def Let_def projectile_loop_velocity
          playerAsteroid_loop_velocity)
qed

subsection \<open>The loops stay inside their arrays\<close>

lemma playerAsteroid_body_length:
  "i < length (asteroids s) \<Longrightarrow> i \<le> length (asteroids (playerAsteroid_body i s))"
proof (cases "center_distance (player s) (asteroids s ! i) < radius (asteroids s ! i) + 15")
  case True
  assume "i < length (asteroids s)"
  then show ?thesis
    by (simp add: playerAsteroid_body_asteroids [OF True] splice1_def)
next
  case False
  assume "i < length (asteroids s)"
  then show ?thesis
    by (simp add: playerAsteroid_body_miss [OF False])
qed

text \<open>
  Both loops of \<^verbatim>\<open>checkCollisions\<close> start at the last index and remove at most the element
  they are at, so the index of the next iteration is again a valid one.
\<close>

lemma asteroid_loop_projectiles_length:
  "pIndex < length (projectiles s) \<Longrightarrow>
     pIndex \<le> length (projectiles (asteroid_loop pIndex pr n s))"
  using asteroid_loop_cases [of pIndex pr n s]
  by (auto simp: projectileAsteroid_hit_projectiles splice1_def)

subsection \<open>The player pass as a whole\<close>

lemma playerAsteroid_body_canvas [simp]:
  "canvas (playerAsteroid_body i s) = canvas s"
  by (simp add: playerAsteroid_body_def Let_def)

lemma playerAsteroid_body_cases:
  "(\<not> within_reach s (asteroids s ! i) \<and> playerAsteroid_body i s = s)
   \<or> (within_reach s (asteroids s ! i)
      \<and> asteroids (playerAsteroid_body i s) = splice1 i (asteroids s)
      \<and> lives (player (playerAsteroid_body i s)) = max 0 (lives (player s) - 1)
      \<and> position (player (playerAsteroid_body i s)) = position (player s)
      \<and> (\<exists>ps. particles (playerAsteroid_body i s) = particles s @ ps
             \<and> length ps = 20 \<and> list_all (\<lambda>p. position p = position (player s)) ps))"
proof (cases "within_reach s (asteroids s ! i)")
  case True
  then show ?thesis
    using playerAsteroid_body_particles [OF True]
    by (simp add: playerAsteroid_body_asteroids playerAsteroid_body_lives
          playerAsteroid_body_position)
next
  case False
  then show ?thesis by (simp add: playerAsteroid_body_miss)
qed

lemma playerAsteroid_loop_pass:
  "n \<le> length (asteroids s) \<Longrightarrow>
     asteroids (playerAsteroid_loop n s)
       = filter (\<lambda>ast. \<not> within_reach s ast) (take n (asteroids s)) @ drop n (asteroids s)
     \<and> position (player (playerAsteroid_loop n s)) = position (player s)
     \<and> lives (player (playerAsteroid_loop n s))
         = (if filter (within_reach s) (take n (asteroids s)) = [] then lives (player s)
            else max 0 (lives (player s) - int (length (filter (within_reach s) (take n (asteroids s))))))
     \<and> (\<exists>ps. particles (playerAsteroid_loop n s) = particles s @ ps
            \<and> length ps = 20 * length (filter (within_reach s) (take n (asteroids s)))
            \<and> list_all (\<lambda>p. position p = position (player s)) ps)"
proof (induction n arbitrary: s)
  case 0
  show ?case by simp
next
  case (Suc n)
  let ?t = "playerAsteroid_body n s"
  from Suc.prems have n: "n < length (asteroids s)" by simp
  have tk: "take (Suc n) (asteroids s) = take n (asteroids s) @ [asteroids s ! n]"
    using n by (simp add: take_Suc_conv_app_nth)
  have dr: "drop n (asteroids s) = asteroids s ! n # drop (Suc n) (asteroids s)"
    using n by (simp add: Cons_nth_drop_Suc)
  from playerAsteroid_body_cases [of s n]
  show ?case
  proof (elim disjE conjE exE)
    assume miss: "\<not> within_reach s (asteroids s ! n)" and same: "?t = s"
    have le: "n \<le> length (asteroids s)" using n by simp
    from Suc.IH [OF le] show ?thesis
      using miss by (simp add: same tk dr)
  next
    fix ps
    assume hit: "within_reach s (asteroids s ! n)"
      and as: "asteroids ?t = splice1 n (asteroids s)"
      and lv: "lives (player ?t) = max 0 (lives (player s) - 1)"
      and ps: "position (player ?t) = position (player s)"
      and pt: "particles ?t = particles s @ ps" "length ps = 20"
          "list_all (\<lambda>p. position p = position (player s)) ps"
    have le: "n \<le> length (asteroids ?t)"
      using n by (simp add: as splice1_def)
    have tk': "take n (asteroids ?t) = take n (asteroids s)"
      using n by (simp add: as splice1_def)
    have dr': "drop n (asteroids ?t) = drop (Suc n) (asteroids s)"
      using n by (simp add: as splice1_def)
    have reach: "within_reach ?t = within_reach s"
      by (simp add: ps)
    note ih = Suc.IH [OF le, unfolded reach tk' dr' ps]
    from ih obtain qs where qs:
      "particles (playerAsteroid_loop n ?t) = particles ?t @ qs"
      "length qs = 20 * length (filter (within_reach s) (take n (asteroids s)))"
      "list_all (\<lambda>p. position p = position (player s)) qs"
      by blast
    have parts: "\<exists>rs. particles (playerAsteroid_loop (Suc n) s) = particles s @ rs
            \<and> length rs = 20 * length (filter (within_reach s) (take (Suc n) (asteroids s)))
            \<and> list_all (\<lambda>p. position p = position (player s)) rs"
      by (rule exI [of _ "ps @ qs"]) (simp add: qs pt tk hit)
    have asts: "asteroids (playerAsteroid_loop (Suc n) s)
       = filter (\<lambda>ast. \<not> within_reach s ast) (take (Suc n) (asteroids s))
           @ drop (Suc n) (asteroids s)"
      using ih hit by (simp add: tk)
    have pos: "position (player (playerAsteroid_loop (Suc n) s)) = position (player s)"
      using ih by simp
    have liv: "lives (player (playerAsteroid_loop (Suc n) s))
         = (if filter (within_reach s) (take (Suc n) (asteroids s)) = [] then lives (player s)
            else max 0 (lives (player s)
                   - int (length (filter (within_reach s) (take (Suc n) (asteroids s))))))"
      using ih hit by (simp add: tk lv max_def)
    show ?thesis
      using asts pos liv parts by blast
  qed
qed

subsection \<open>The projectile pass as a whole\<close>

lemma asteroid_loop_result:
  "((\<forall>j<n. \<not> struck pr (asteroids s ! j)) \<and> asteroid_loop pIndex pr n s = s)
   \<or> (\<exists>j<n. struck pr (asteroids s ! j)
          \<and> asteroid_loop pIndex pr n s = projectileAsteroid_hit pIndex j pr (asteroids s ! j) s)"
proof (induction n)
  case 0
  show ?case by simp
next
  case (Suc n)
  show ?case
  proof (cases "struck pr (asteroids s ! n)")
    case True
    then have "asteroid_loop pIndex pr (Suc n) s
                 = projectileAsteroid_hit pIndex n pr (asteroids s ! n) s"
      by (simp add: Let_def)
    with True show ?thesis by blast
  next
    case False
    then have eq: "asteroid_loop pIndex pr (Suc n) s = asteroid_loop pIndex pr n s"
      by (simp add: Let_def)
    from Suc.IH show ?thesis
    proof
      assume "(\<forall>j<n. \<not> struck pr (asteroids s ! j)) \<and> asteroid_loop pIndex pr n s = s"
      with False eq have "(\<forall>j<Suc n. \<not> struck pr (asteroids s ! j))
                           \<and> asteroid_loop pIndex pr (Suc n) s = s"
        by (simp add: less_Suc_eq)
      then show ?thesis by blast
    next
      assume "\<exists>j<n. struck pr (asteroids s ! j)
          \<and> asteroid_loop pIndex pr n s = projectileAsteroid_hit pIndex j pr (asteroids s ! j) s"
      then obtain j where "j < n" "struck pr (asteroids s ! j)"
        "asteroid_loop pIndex pr n s = projectileAsteroid_hit pIndex j pr (asteroids s ! j) s"
        by blast
      with eq have "j < Suc n \<and> struck pr (asteroids s ! j)
          \<and> asteroid_loop pIndex pr (Suc n) s
              = projectileAsteroid_hit pIndex j pr (asteroids s ! j) s"
        by simp
      then show ?thesis by blast
    qed
  qed
qed

lemma projectile_loop_no_hit:
  "(\<forall>i<n. \<forall>j<length (asteroids s). \<not> struck (projectiles s ! i) (asteroids s ! j))
     \<Longrightarrow> projectile_loop n s = s"
proof (induction n)
  case 0
  show ?case by simp
next
  case (Suc n)
  have "asteroid_loop n (projectiles s ! n) (length (asteroids s)) s = s"
    using Suc.prems by (intro asteroid_loop_miss) simp
  moreover have "projectile_loop n s = s"
    using Suc.prems by (intro Suc.IH) simp
  ultimately show ?case by (simp add: Let_def)
qed

lemma set_splice1: "set (splice1 i xs) \<subseteq> set xs"
  unfolding splice1_def using set_take_subset [of i xs] set_drop_subset [of "Suc i" xs]
  by auto

lemma projectileAsteroid_hit_clear:
  assumes j: "j < length (asteroids s)"
    and miss: "\<forall>ast \<in> set (asteroids s). \<not> struck pr' ast"
    and ast: "ast \<in> set (asteroids (projectileAsteroid_hit pIndex j pr (asteroids s ! j) s))"
  shows "\<not> struck pr' ast"
proof (cases "radius (asteroids s ! j) > 15")
  case False
  with ast have "ast \<in> set (splice1 j (asteroids s))"
    by (simp add: projectileAsteroid_hit_asteroids)
  with set_splice1 [of j "asteroids s"] miss show ?thesis by blast
next
  case True
  let ?p = "asteroids s ! j"
  let ?c1 = "fst (new_Asteroid (position ?p) (radius ?p / 2) (rand s))"
  let ?c2 = "fst (new_Asteroid (position ?p) (radius ?p / 2)
                     (snd (new_Asteroid (position ?p) (radius ?p / 2) (rand s))))"
  from ast True have "ast \<in> set (splice1 j (asteroids s @ [?c1, ?c2]))"
    by (simp add: projectileAsteroid_hit_asteroids)
  with set_splice1 [of j "asteroids s @ [?c1, ?c2]"]
  have "ast \<in> set (asteroids s) \<or> ast = ?c1 \<or> ast = ?c2" by auto
  moreover have "\<not> struck pr' ?p"
    using miss j by simp
  then have "\<not> struck pr' ?c1" "\<not> struck pr' ?c2"
    using True by simp_all
  ultimately show ?thesis using miss by blast
qed

lemma projectile_loop_clears:
  "n \<le> length (projectiles s) \<Longrightarrow>
   (\<forall>pr \<in> set (drop n (projectiles s)). \<forall>ast \<in> set (asteroids s). \<not> struck pr ast) \<Longrightarrow>
   (\<forall>pr \<in> set (projectiles (projectile_loop n s)).
      \<forall>ast \<in> set (asteroids (projectile_loop n s)). \<not> struck pr ast)"
proof (induction n arbitrary: s)
  case 0
  then show ?case by simp
next
  case (Suc n)
  let ?pr = "projectiles s ! n"
  let ?t = "asteroid_loop n ?pr (length (asteroids s)) s"
  from Suc.prems(1) have n: "n < length (projectiles s)" by simp
  have dr: "drop n (projectiles s) = ?pr # drop (Suc n) (projectiles s)"
    using n by (simp add: Cons_nth_drop_Suc)
  have inv: "n \<le> length (projectiles ?t)
      \<and> (\<forall>pr \<in> set (drop n (projectiles ?t)). \<forall>ast \<in> set (asteroids ?t). \<not> struck pr ast)"
    using asteroid_loop_result [of "length (asteroids s)" ?pr s n]
  proof (elim disjE conjE exE)
    assume miss: "\<forall>j<length (asteroids s). \<not> struck ?pr (asteroids s ! j)" and same: "?t = s"
    have "\<forall>ast \<in> set (asteroids s). \<not> struck ?pr ast"
      using miss by (auto simp: in_set_conv_nth)
    with Suc.prems(2) n show ?thesis
      by (simp add: same dr)
  next
    fix j
    assume j: "j < length (asteroids s)"
      and eq: "?t = projectileAsteroid_hit n j ?pr (asteroids s ! j) s"
    have pj: "projectiles ?t = splice1 n (projectiles s)"
      by (simp add: eq projectileAsteroid_hit_projectiles)
    have d: "drop n (projectiles ?t) = drop (Suc n) (projectiles s)"
      using n by (simp add: pj splice1_def)
    have l: "n \<le> length (projectiles ?t)"
      using n by (simp add: pj splice1_def)
    have "\<forall>pr \<in> set (drop (Suc n) (projectiles s)). \<forall>ast \<in> set (asteroids ?t). \<not> struck pr ast"
    proof (intro ballI)
      fix pr' ast
      assume p: "pr' \<in> set (drop (Suc n) (projectiles s))" and a: "ast \<in> set (asteroids ?t)"
      from p Suc.prems(2) have "\<forall>ast \<in> set (asteroids s). \<not> struck pr' ast" by blast
      from projectileAsteroid_hit_clear [OF j this a [unfolded eq]]
      show "\<not> struck pr' ast" .
    qed
    with d l show ?thesis by simp
  qed
  from Suc.IH [of ?t] inv show ?case
    by (simp add: Let_def)
qed

lemma projectile_loop_particles:
  "n \<le> length (projectiles s) \<Longrightarrow>
     length (particles (projectile_loop n s)) + 10 * length (projectiles (projectile_loop n s))
       = length (particles s) + 10 * length (projectiles s)"
proof (induction n arbitrary: s)
  case 0
  show ?case by simp
next
  case (Suc n)
  let ?t = "asteroid_loop n (projectiles s ! n) (length (asteroids s)) s"
  from Suc.prems have n: "n < length (projectiles s)" by simp
  have step: "length (particles ?t) + 10 * length (projectiles ?t)
                = length (particles s) + 10 * length (projectiles s)
              \<and> n \<le> length (projectiles ?t)"
    using asteroid_loop_cases [of n "projectiles s ! n" "length (asteroids s)" s]
  proof (elim disjE exE conjE)
    assume "?t = s"
    with n show ?thesis by simp
  next
    fix j
    assume h: "?t = projectileAsteroid_hit n j (projectiles s ! n) (asteroids s ! j) s"
    from projectileAsteroid_hit_particles [of n j "projectiles s ! n" "asteroids s ! j" s]
    obtain ps where "particles ?t = particles s @ ps" "length ps = 10"
      unfolding h by blast
    moreover have "length (projectiles ?t) + 1 = length (projectiles s)"
      unfolding h projectileAsteroid_hit_projectiles using n by (rule length_splice1)
    ultimately show ?thesis using n by auto
  qed
  with Suc.IH [of ?t] show ?case by (simp add: Let_def)
qed

lemma playerAsteroid_body_projectiles [simp]:
  "projectiles (playerAsteroid_body i s) = projectiles s"
  by (simp add: playerAsteroid_body_def Let_def)

lemma playerAsteroid_loop_projectiles [simp]:
  "projectiles (playerAsteroid_loop n s) = projectiles s"
  by (induction n arbitrary: s) simp_all

lemma checkCollisions_clears:
  "\<forall>pr \<in> set (projectiles (checkCollisions s)).
      \<forall>ast \<in> set (asteroids (checkCollisions s)). \<not> struck pr ast"
proof -
  let ?t = "playerAsteroid_loop (length (asteroids s)) s"
  have "\<forall>pr \<in> set (projectiles (projectile_loop (length (projectiles ?t)) ?t)).
      \<forall>ast \<in> set (asteroids (projectile_loop (length (projectiles ?t)) ?t)). \<not> struck pr ast"
    by (rule projectile_loop_clears) simp_all
  then show ?thesis
    by (simp add: checkCollisions_def Let_def)
qed

subsection \<open>The two passes of the collision resolver\<close>

text \<open>
  C5: the player-asteroid pass is the first loop of \<^verbatim>\<open>checkCollisions\<close>; it runs its body
  at every index from the last down to 0. In the body at index \<open>i\<close>: if the distance
  between the centres of the player and the asteroid is not less than the asteroid's radius
  plus 15, the state is unchanged; if it is less, the lives become \<open>max 0 (lives - 1)\<close>,
  which is never negative, twenty particles are added at the player's position, and the
  asteroid at \<open>i\<close> is removed with nothing added to the asteroids. Over the whole pass:
  the asteroids left are exactly those that were not within reach, in their old order;
  with \<open>k\<close> asteroids within reach, the lives are unchanged if \<open>k = 0\<close> and
  \<open>max 0 (lives - k)\<close> otherwise, also at the end of \<^verbatim>\<open>checkCollisions\<close>; and \<open>20 * k\<close>
  particles are added, all at the player's position.
\<close>

theorem player_pass_rule:
  "(\<not> within_reach s (asteroids s ! i) \<longrightarrow> playerAsteroid_body i s = s)
   \<and> (within_reach s (asteroids s ! i)
      \<longrightarrow> lives (player (playerAsteroid_body i s)) = max 0 (lives (player s) - 1)
        \<and> 0 \<le> lives (player (playerAsteroid_body i s))
        \<and> (\<exists>ps. particles (playerAsteroid_body i s) = particles s @ ps
               \<and> length ps = 20 \<and> list_all (\<lambda>p. position p = position (player s)) ps)
        \<and> asteroids (playerAsteroid_body i s)
            = take i (asteroids s) @ drop (Suc i) (asteroids s)
        \<and> (i < length (asteroids s)
             \<longrightarrow> length (asteroids (playerAsteroid_body i s)) + 1 = length (asteroids s)))
   \<and> playerAsteroid_loop (Suc i) s = playerAsteroid_loop i (playerAsteroid_body i s)
   \<and> checkCollisions s
       = projectile_loop (length (projectiles (playerAsteroid_loop (length (asteroids s)) s)))
           (playerAsteroid_loop (length (asteroids s)) s)
   \<and> asteroids (playerAsteroid_loop (length (asteroids s)) s)
       = filter (\<lambda>ast. \<not> within_reach s ast) (asteroids s)
   \<and> lives (player (playerAsteroid_loop (length (asteroids s)) s))
       = (if filter (within_reach s) (asteroids s) = [] then lives (player s)
          else max 0 (lives (player s) - int (length (filter (within_reach s) (asteroids s)))))
   \<and> lives (player (checkCollisions s))
       = (if filter (within_reach s) (asteroids s) = [] then lives (player s)
          else max 0 (lives (player s) - int (length (filter (within_reach s) (asteroids s)))))
   \<and> (\<exists>ps. particles (playerAsteroid_loop (length (asteroids s)) s) = particles s @ ps
          \<and> length ps = 20 * length (filter (within_reach s) (asteroids s))
          \<and> list_all (\<lambda>p. position p = position (player s)) ps)"
proof -
  have hit: "lives (player (playerAsteroid_body i s)) = max 0 (lives (player s) - 1)
        \<and> 0 \<le> lives (player (playerAsteroid_body i s))
        \<and> (\<exists>ps. particles (playerAsteroid_body i s) = particles s @ ps
               \<and> length ps = 20 \<and> list_all (\<lambda>p. position p = position (player s)) ps)
        \<and> asteroids (playerAsteroid_body i s)
            = take i (asteroids s) @ drop (Suc i) (asteroids s)
        \<and> (i < length (asteroids s)
             \<longrightarrow> length (asteroids (playerAsteroid_body i s)) + 1 = length (asteroids s))"
    if c: "within_reach s (asteroids s ! i)"
    using playerAsteroid_body_particles [OF c]
    by (auto simp: playerAsteroid_body_lives [OF c] playerAsteroid_body_asteroids [OF c]
                  splice1_def)
  have loop: "playerAsteroid_loop (Suc i) s = playerAsteroid_loop i (playerAsteroid_body i s)"
    by simp
  have cc: "checkCollisions s
       = projectile_loop (length (projectiles (playerAsteroid_loop (length (asteroids s)) s)))
           (playerAsteroid_loop (length (asteroids s)) s)"
    by (simp add: checkCollisions_def Let_def)
  have pass: "asteroids (playerAsteroid_loop (length (asteroids s)) s)
       = filter (\<lambda>ast. \<not> within_reach s ast) (asteroids s)"
    "lives (player (playerAsteroid_loop (length (asteroids s)) s))
       = (if filter (within_reach s) (asteroids s) = [] then lives (player s)
          else max 0 (lives (player s) - int (length (filter (within_reach s) (asteroids s)))))"
    "\<exists>ps. particles (playerAsteroid_loop (length (asteroids s)) s) = particles s @ ps
          \<and> length ps = 20 * length (filter (within_reach s) (asteroids s))
          \<and> list_all (\<lambda>p. position p = position (player s)) ps"
    using playerAsteroid_loop_pass [of "length (asteroids s)" s] by simp_all
  have lv: "lives (player (checkCollisions s))
       = lives (player (playerAsteroid_loop (length (asteroids s)) s))"
    by (simp add: checkCollisions_def Let_def projectile_loop_lives)
  show ?thesis
    using playerAsteroid_body_miss [of s i] hit loop cc pass
    unfolding lv by blast
qed

text \<open>
  The ship loses one of three lives to the boulder and is out of reach of the pebble, which
  is the one asteroid left after the pass; on its last life between two boulders it ends
  with no lives and no asteroids.
\<close>

theorem player_pass_rule_witness:
  "lives (player (playerAsteroid_body 0 crash)) = 2
   \<and> asteroids (playerAsteroid_body 0 crash) = [pebble]
   \<and> playerAsteroid_body 1 crash = crash
   \<and> asteroids (playerAsteroid_loop (length (asteroids crash)) crash) = [pebble]
   \<and> lives (player (checkCollisions crash)) = 2
   \<and> asteroids (playerAsteroid_loop (length (asteroids last_life)) last_life) = []
   \<and> lives (player (checkCollisions last_life)) = 0"
proof -
  have near: "within_reach crash (asteroids crash ! 0)"
    by (simp add: crash_def arena_def ship_def boulder_def Math_hypot_less)
  have far: "\<not> within_reach crash (asteroids crash ! 1)"
    by (simp add: crash_def arena_def ship_def pebble_def Math_hypot_less)
  have v: "lives (player crash) = 3"
     "asteroids crash = [boulder\<lparr>position := \<lparr>x = 410, y = 300\<rparr>\<rparr>, pebble]"
    by (simp_all add: crash_def arena_def ship_def)
  have f: "filter (within_reach crash) (asteroids crash) = [boulder\<lparr>position := \<lparr>x = 410, y = 300\<rparr>\<rparr>]"
     "filter (\<lambda>ast. \<not> within_reach crash ast) (asteroids crash) = [pebble]"
    by (simp_all add: crash_def arena_def ship_def boulder_def pebble_def Math_hypot_less)
  have w: "lives (player last_life) = 1"
     "filter (within_reach last_life) (asteroids last_life) = asteroids last_life"
     "filter (\<lambda>ast. \<not> within_reach last_life ast) (asteroids last_life) = []"
     "length (asteroids last_life) = 2" "asteroids last_life \<noteq> []"
    by (simp_all add: last_life_def arena_def ship_def boulder_def Math_hypot_less)
  from player_pass_rule [of crash 0] near
  have h: "lives (player (playerAsteroid_body 0 crash)) = max 0 (lives (player crash) - 1)"
     "asteroids (playerAsteroid_body 0 crash) = take 0 (asteroids crash) @ drop (Suc 0) (asteroids crash)"
    by blast+
  from player_pass_rule [of crash 1] far
  have g: "playerAsteroid_body 1 crash = crash"
    by blast
  from player_pass_rule [of crash 0]
  have p: "asteroids (playerAsteroid_loop (length (asteroids crash)) crash)
       = filter (\<lambda>ast. \<not> within_reach crash ast) (asteroids crash)"
    "lives (player (checkCollisions crash))
       = (if filter (within_reach crash) (asteroids crash) = [] then lives (player crash)
          else max 0 (lives (player crash) - int (length (filter (within_reach crash) (asteroids crash)))))"
    by blast+
  from player_pass_rule [of last_life 0]
  have q: "asteroids (playerAsteroid_loop (length (asteroids last_life)) last_life)
       = filter (\<lambda>ast. \<not> within_reach last_life ast) (asteroids last_life)"
    "lives (player (checkCollisions last_life))
       = (if filter (within_reach last_life) (asteroids last_life) = [] then lives (player last_life)
          else max 0 (lives (player last_life)
                 - int (length (filter (within_reach last_life) (asteroids last_life)))))"
    by blast+
  have c1: "lives (player (checkCollisions crash)) = 2"
    unfolding p(2) f(1) by (simp add: v)
  have c2: "lives (player (checkCollisions last_life)) = 0"
    unfolding q(2) w(2) by (simp add: w)
  show ?thesis
    using h g c1 c2 by (simp add: v p(1) f(2) q(1) w(3))
qed

text \<open>
  C4: the inner loop for a projectile scans the asteroids from index \<open>n - 1\<close> down to 0
  (\<open>n\<close> is \<^verbatim>\<open>asteroids.length\<close>). If no asteroid has its centre closer to the projectile's
  than its own radius, the state is unchanged. Otherwise the loop stops at the first such
  asteroid \<open>j\<close> it meets, and only that one is struck: the projectile at \<open>pIndex\<close> is
  removed, the score grows by exactly 10, ten particles are added at the projectile's
  position, and of the asteroids only the one at \<open>j\<close> is removed (children may be appended).
  The pass runs that inner loop for the projectile at every index, from the last down to 0.
  If no projectile is closer to any asteroid than that asteroid's radius, the pass changes
  nothing. After the pass, and so after \<^verbatim>\<open>checkCollisions\<close>, no projectile that is left is
  closer to any asteroid that is left than that asteroid's radius. Every projectile the pass
  removes adds exactly 10 to the score and exactly 10 particles, so no projectile destroys
  more than one asteroid.
\<close>

theorem projectile_pass_rule:
  assumes "n \<le> length (asteroids s)"
  shows "((\<forall>j<n. \<not> struck pr (asteroids s ! j)) \<longrightarrow> asteroid_loop pIndex pr n s = s)
     \<and> (j < n \<and> struck pr (asteroids s ! j)
          \<and> (\<forall>k. j < k \<and> k < n \<longrightarrow> \<not> struck pr (asteroids s ! k))
         \<longrightarrow> asteroid_loop pIndex pr n s
               = projectileAsteroid_hit pIndex j pr (asteroids s ! j) s
           \<and> projectiles (asteroid_loop pIndex pr n s)
               = take pIndex (projectiles s) @ drop (Suc pIndex) (projectiles s)
           \<and> score (player (asteroid_loop pIndex pr n s)) = score (player s) + 10
           \<and> (\<exists>ps. particles (asteroid_loop pIndex pr n s) = particles s @ ps
                  \<and> length ps = 10 \<and> list_all (\<lambda>p. position p = position pr) ps)
           \<and> (\<exists>cs. asteroids (asteroid_loop pIndex pr n s)
                      = take j (asteroids s) @ drop (Suc j) (asteroids s) @ cs))
     \<and> projectile_loop (Suc pIndex) s
         = projectile_loop pIndex
             (asteroid_loop pIndex (projectiles s ! pIndex) (length (asteroids s)) s)
     \<and> ((\<forall>i<length (projectiles s). \<forall>j<length (asteroids s).
             \<not> struck (projectiles s ! i) (asteroids s ! j))
         \<longrightarrow> projectile_loop (length (projectiles s)) s = s)
     \<and> (\<forall>p \<in> set (projectiles (projectile_loop (length (projectiles s)) s)).
          \<forall>ast \<in> set (asteroids (projectile_loop (length (projectiles s)) s)). \<not> struck p ast)
     \<and> (\<forall>p \<in> set (projectiles (checkCollisions s)).
          \<forall>ast \<in> set (asteroids (checkCollisions s)). \<not> struck p ast)
     \<and> score (player (projectile_loop (length (projectiles s)) s))
          + 10 * int (length (projectiles (projectile_loop (length (projectiles s)) s)))
        = score (player s) + 10 * int (length (projectiles s))
     \<and> length (particles (projectile_loop (length (projectiles s)) s))
          + 10 * length (projectiles (projectile_loop (length (projectiles s)) s))
        = length (particles s) + 10 * length (projectiles s)"
proof -
  have hit: "asteroid_loop pIndex pr n s
               = projectileAsteroid_hit pIndex j pr (asteroids s ! j) s
           \<and> projectiles (asteroid_loop pIndex pr n s)
               = take pIndex (projectiles s) @ drop (Suc pIndex) (projectiles s)
           \<and> score (player (asteroid_loop pIndex pr n s)) = score (player s) + 10
           \<and> (\<exists>ps. particles (asteroid_loop pIndex pr n s) = particles s @ ps
                  \<and> length ps = 10 \<and> list_all (\<lambda>p. position p = position pr) ps)
           \<and> (\<exists>cs. asteroids (asteroid_loop pIndex pr n s)
                      = take j (asteroids s) @ drop (Suc j) (asteroids s) @ cs)"
    if j: "j < n" and c: "struck pr (asteroids s ! j)"
      and f: "\<forall>k. j < k \<and> k < n \<longrightarrow> \<not> struck pr (asteroids s ! k)"
  proof -
    have eq: "asteroid_loop pIndex pr n s
               = projectileAsteroid_hit pIndex j pr (asteroids s ! j) s"
      using j c f by (rule asteroid_loop_hit)
    from j assms have jl: "j < length (asteroids s)" by simp
    have "\<exists>cs. asteroids (projectileAsteroid_hit pIndex j pr (asteroids s ! j) s)
                      = take j (asteroids s) @ drop (Suc j) (asteroids s) @ cs"
    proof (cases "radius (asteroids s ! j) > 15")
      case True
      then show ?thesis
        using jl by (simp add: projectileAsteroid_hit_asteroids splice1_def)
    next
      case False
      then show ?thesis
        by (simp add: projectileAsteroid_hit_asteroids splice1_def)
    qed
    then show ?thesis
      unfolding eq
      using projectileAsteroid_hit_particles [of pIndex j pr "asteroids s ! j" s]
      by (simp add: projectileAsteroid_hit_projectiles projectileAsteroid_hit_player splice1_def)
  qed
  have loop: "projectile_loop (Suc pIndex) s
         = projectile_loop pIndex
             (asteroid_loop pIndex (projectiles s ! pIndex) (length (asteroids s)) s)"
    by (simp add: Let_def)
  have clear: "\<forall>p \<in> set (projectiles (projectile_loop (length (projectiles s)) s)).
          \<forall>ast \<in> set (asteroids (projectile_loop (length (projectiles s)) s)). \<not> struck p ast"
    by (rule projectile_loop_clears) simp_all
  have cons: "score (player (projectile_loop (length (projectiles s)) s))
          + 10 * int (length (projectiles (projectile_loop (length (projectiles s)) s)))
        = score (player s) + 10 * int (length (projectiles s))"
    by (rule projectile_loop_conservation) simp
  have parts: "length (particles (projectile_loop (length (projectiles s)) s))
          + 10 * length (projectiles (projectile_loop (length (projectiles s)) s))
        = length (particles s) + 10 * length (projectiles s)"
    by (rule projectile_loop_particles) simp
  show ?thesis
    using asteroid_loop_miss [of n pr s pIndex] hit loop
      projectile_loop_no_hit [of "length (projectiles s)" s] clear checkCollisions_clears [of s]
      cons parts
    by blast
qed

text \<open>
  The shot passes the pebble and strikes the boulder, in the inner loop and in the pass; with
  only the pebble present the pass changes nothing.
\<close>

theorem projectile_pass_rule_witness:
  "asteroid_loop 0 shot 2 field = projectileAsteroid_hit 0 0 shot boulder field
   \<and> projectile_loop 1 field = projectileAsteroid_hit 0 0 shot boulder field
   \<and> projectiles (projectile_loop 1 field) = []
   \<and> score (player (projectile_loop 1 field)) = 10
   \<and> projectile_loop 1 (field\<lparr>asteroids := [pebble]\<rparr>) = field\<lparr>asteroids := [pebble]\<rparr>"
proof -
  let ?f = "field\<lparr>asteroids := [pebble]\<rparr>"
  have n: "2 \<le> length (asteroids field)" "0 \<le> length (asteroids ?f)"
    by (simp_all add: field_def)
  have near: "struck shot (asteroids field ! 0)"
    by (simp add: field_def shot_def boulder_def Math_hypot_less)
  have far: "\<not> struck shot pebble"
    by (simp add: shot_def pebble_def Math_hypot_less)
  have far1: "\<forall>k. 0 < k \<and> k < 2 \<longrightarrow> \<not> struck shot (asteroids field ! k)"
  proof (intro allI impI)
    fix k :: nat assume "0 < k \<and> k < 2"
    then have "k = 1" by simp
    then show "\<not> struck shot (asteroids field ! k)"
      using far by (simp add: field_def)
  qed
  have v: "projectiles field = [shot]" "score (player field) = 0" "asteroids field ! 0 = boulder"
      "length (asteroids field) = 2" "length (projectiles field) = 1"
    by (simp_all add: field_def arena_def ship_def)
  have v': "projectiles ?f = [shot]" "asteroids ?f = [pebble]"
    by (simp_all add: field_def)
  have prem: "0 < (2::nat) \<and> struck shot (asteroids field ! 0)
          \<and> (\<forall>k. 0 < k \<and> k < 2 \<longrightarrow> \<not> struck shot (asteroids field ! k))"
    using near far1 by simp
  from projectile_pass_rule [OF n(1), where pr = shot and pIndex = 0 and j = 0] prem
  have h: "asteroid_loop 0 shot 2 field = projectileAsteroid_hit 0 0 shot (asteroids field ! 0) field"
    "projectiles (asteroid_loop 0 shot 2 field)
       = take 0 (projectiles field) @ drop (Suc 0) (projectiles field)"
    "score (player (asteroid_loop 0 shot 2 field)) = score (player field) + 10"
    "projectile_loop (Suc 0) field
       = projectile_loop 0 (asteroid_loop 0 (projectiles field ! 0) (length (asteroids field)) field)"
    by blast+
  have none: "\<forall>i<length (projectiles ?f). \<forall>j<length (asteroids ?f).
             \<not> struck (projectiles ?f ! i) (asteroids ?f ! j)"
    using far by (simp add: v')
  from projectile_pass_rule [OF n(2), where pr = shot and pIndex = 0 and j = 0] none
  have g: "projectile_loop (length (projectiles ?f)) ?f = ?f"
    by blast
  have l: "projectile_loop 1 field = asteroid_loop 0 shot 2 field"
    using h(4) by (simp add: v)
  have g': "projectile_loop 1 ?f = ?f"
    using g by (simp add: v')
  show ?thesis
    unfolding l g' using h(1,2,3) by (simp add: v)
qed

subsection \<open>From the collision pass to the restart\<close>

lemma game_overs_step:
  "game_overs l (Suc k)
     = (if l - 1 \<le> 0 then 1 else 0) + game_overs (max 0 (l - 1)) k"
  by (auto simp: game_overs_def max_def min_def)

lemma playerAsteroid_loop_game_over:
  "n \<le> length (asteroids s) \<Longrightarrow>
     countdowns (playerAsteroid_loop n s)
       = countdowns s
         @ replicate (game_overs (lives (player s))
                        (length (filter (within_reach s) (take n (asteroids s))))) 3
     \<and> isGameOver (playerAsteroid_loop n s)
         = (isGameOver s
            \<or> 0 < game_overs (lives (player s))
                    (length (filter (within_reach s) (take n (asteroids s)))))
     \<and> canvas (playerAsteroid_loop n s) = canvas s
     \<and> bestScore (player (playerAsteroid_loop n s)) = bestScore (player s)"
proof (induction n arbitrary: s)
  case 0
  show ?case by (simp add: game_overs_def)
next
  case (Suc n)
  let ?t = "playerAsteroid_body n s"
  from Suc.prems have n: "n < length (asteroids s)" by simp
  have tk: "take (Suc n) (asteroids s) = take n (asteroids s) @ [asteroids s ! n]"
    using n by (simp add: take_Suc_conv_app_nth)
  show ?case
  proof (cases "within_reach s (asteroids s ! n)")
    case False
    then have same: "?t = s" by (rule playerAsteroid_body_miss)
    have le: "n \<le> length (asteroids s)" using n by simp
    from Suc.IH [OF le] show ?thesis
      using False by (simp add: same tk)
  next
    case True
    note h = playerAsteroid_body_hit [OF True]
    have as: "asteroids ?t = splice1 n (asteroids s)"
      using True by (rule playerAsteroid_body_asteroids)
    have le: "n \<le> length (asteroids ?t)"
      using n by (simp add: as splice1_def)
    have tk': "take n (asteroids ?t) = take n (asteroids s)"
      using n by (simp add: as splice1_def)
    have reach: "within_reach ?t = within_reach s"
      by (simp add: playerAsteroid_body_position)
    have lv: "lives (player ?t) = max 0 (lives (player s) - 1)"
      by (simp add: h(5))
    have bs: "bestScore (player ?t) = bestScore (player s)"
      by (simp add: h(5))
    note ih = Suc.IH [OF le, unfolded reach tk' lv bs]
    show ?thesis
      using ih True
      by (auto simp: tk h(1,2) game_overs_step)
  qed
qed

lemma projectileAsteroid_hit_fields [simp]:
  "isGameOver (projectileAsteroid_hit pIndex aIndex pr ast s) = isGameOver s"
  "countdowns (projectileAsteroid_hit pIndex aIndex pr ast s) = countdowns s"
  "canvas (projectileAsteroid_hit pIndex aIndex pr ast s) = canvas s"
  by (simp_all add: projectileAsteroid_hit_def Let_def case_prod_beta)

lemma asteroid_loop_fields [simp]:
  "isGameOver (asteroid_loop pIndex pr n s) = isGameOver s"
  "countdowns (asteroid_loop pIndex pr n s) = countdowns s"
  "canvas (asteroid_loop pIndex pr n s) = canvas s"
  "bestScore (player (asteroid_loop pIndex pr n s)) = bestScore (player s)"
  using asteroid_loop_cases [of pIndex pr n s]
  by (auto simp: projectileAsteroid_hit_player)

lemma projectile_loop_fields [simp]:
  "isGameOver (projectile_loop n s) = isGameOver s"
  "countdowns (projectile_loop n s) = countdowns s"
  "canvas (projectile_loop n s) = canvas s"
  "bestScore (player (projectile_loop n s)) = bestScore (player s)"
  by (induction n arbitrary: s) (simp_all add: Let_def)

lemma checkCollisions_game_over:
  "countdowns (checkCollisions s)
       = countdowns s
         @ replicate (game_overs (lives (player s))
                        (length (filter (within_reach s) (asteroids s)))) 3"
  "isGameOver (checkCollisions s)
         = (isGameOver s
            \<or> 0 < game_overs (lives (player s)) (length (filter (within_reach s) (asteroids s))))"
  "canvas (checkCollisions s) = canvas s"
  "bestScore (player (checkCollisions s)) = bestScore (player s)"
  using playerAsteroid_loop_game_over [of "length (asteroids s)" s]
  by (simp_all add: checkCollisions_def Let_def)

text \<open>The state in which \<^verbatim>\<open>animate\<close> calls \<^verbatim>\<open>checkCollisions\<close>: every entity has moved.\<close>

lemma animate_running:
  "\<not> isGameOver s \<Longrightarrow>
     animate s = checkCollisions
       (particle_loop (length (particles s))
         (s\<lparr>frameRequests := frameRequests s + 1,
            player := Player_update (canvas s) (player s),
            projectiles := map Projectile_update (projectiles s),
            asteroids := map (Asteroid_update (canvas s)) (asteroids s)\<rparr>))"
  by (simp add: animate_def Let_def)

lemma Player_update_bestScore [simp]: "bestScore (Player_update cv p) = bestScore p"
  by (simp add: Player_update_def Let_def)

lemma frame_game_over:
  assumes run: "\<not> isGameOver s" and over: "isGameOver (step AnimationFrame s)"
  shows "\<exists>m>0. countdowns (step AnimationFrame s) = countdowns s @ replicate m 3"
    and "lives (player (step AnimationFrame s)) = 0"
    and "canvas (step AnimationFrame s) = canvas s"
    and "bestScore (player (step AnimationFrame s)) = bestScore (player s)"
proof -
  from run over have fr: "frameRequests s \<noteq> 0"
    by (auto split: if_splits)
  define mid where "mid = particle_loop (length (particles s))
         (s\<lparr>frameRequests := frameRequests s - 1 + 1,
            player := Player_update (canvas s) (player s),
            projectiles := map Projectile_update (projectiles s),
            asteroids := map (Asteroid_update (canvas s)) (asteroids s)\<rparr>)"
  have eq: "step AnimationFrame s = checkCollisions mid"
    using fr run animate_running [of "s\<lparr>frameRequests := frameRequests s - 1\<rparr>"]
    by (simp add: mid_def)
  have mid: "countdowns mid = countdowns s" "isGameOver mid = isGameOver s"
    "canvas mid = canvas s" "bestScore (player mid) = bestScore (player s)"
    by (simp_all add: mid_def)
  define k where "k = length (filter (within_reach mid) (asteroids mid))"
  have pos: "0 < game_overs (lives (player mid)) k"
    using over run unfolding eq checkCollisions_game_over(2) k_def mid(2) by simp
  have "countdowns (step AnimationFrame s)
          = countdowns s @ replicate (game_overs (lives (player mid)) k) 3"
    unfolding eq checkCollisions_game_over(1) k_def mid(1) by simp
  with pos show "\<exists>m>0. countdowns (step AnimationFrame s) = countdowns s @ replicate m 3"
    by blast
  show "canvas (step AnimationFrame s) = canvas s"
    unfolding eq checkCollisions_game_over(3) by (rule mid(3))
  show "bestScore (player (step AnimationFrame s)) = bestScore (player s)"
    unfolding eq checkCollisions_game_over(4) by (rule mid(4))
  have k0: "k \<noteq> 0" and le: "lives (player mid) - int k \<le> 0"
    using pos by (auto simp: game_overs_def)
  have hits: "filter (within_reach mid) (asteroids mid) \<noteq> []"
    using k0 by (simp add: k_def)
  have "lives (player (checkCollisions mid)) = max 0 (lives (player mid) - int k)"
    using playerAsteroid_loop_pass [of "length (asteroids mid)" mid] hits
    by (simp add: checkCollisions_def Let_def projectile_loop_lives k_def)
  with le show "lives (player (step AnimationFrame s)) = 0"
    unfolding eq by simp
qed

lemma step_without_restart:
  assumes go: "isGameOver s" and k: "k < length (countdowns s)"
    and q: "without_restart k [e] s"
  shows "isGameOver (step e s) \<and> k < length (countdowns (step e s))
         \<and> countdowns (step e s) ! k = countdowns s ! k
         \<and> canvas (step e s) = canvas s
         \<and> bestScore (player (step e s)) = bestScore (player s)"
proof (cases "other_event e")
  case True
  from step_other_while_game_over [OF True go] k show ?thesis by simp
next
  case False
  then obtain j where e: "e = CountdownInterval j"
    by (cases e) (simp_all add: other_event_def)
  from q e have jk: "j \<noteq> k" by simp
  show ?thesis
  proof (cases "j < length (countdowns s)")
    case False
    with e go k show ?thesis by simp
  next
    case True
    with q e have "countdowns s ! j - 1 \<noteq> 0" by simp
    note p = countdownInterval_pending [OF True this]
    show ?thesis
      using True go k jk by (simp add: e p)
  qed
qed

lemma run_without_restart:
  assumes "isGameOver s" "k < length (countdowns s)" "without_restart k es s"
  shows "isGameOver (run es s) \<and> k < length (countdowns (run es s))
         \<and> countdowns (run es s) ! k = countdowns s ! k
         \<and> canvas (run es s) = canvas s
         \<and> bestScore (player (run es s)) = bestScore (player s)"
  using assms
proof (induction es arbitrary: s)
  case Nil
  then show ?case by simp
next
  case (Cons e es)
  from Cons.prems(3) have e: "without_restart k [e] s" and es: "without_restart k es (step e s)"
    by simp_all
  note st = step_without_restart [OF Cons.prems(1,2) e]
  from st have g: "isGameOver (step e s)" and l: "k < length (countdowns (step e s))"
    by simp_all
  from Cons.IH [OF g l es] st show ?case by simp
qed

lemma countdown_tick_pending:
  assumes go: "isGameOver s" and k: "k < length (countdowns s)"
    and c: "countdowns s ! k - 1 \<noteq> 0"
    and es: "without_restart k es (step (CountdownInterval k) s)"
  shows "isGameOver (run (CountdownInterval k # es) s)
       \<and> k < length (countdowns (run (CountdownInterval k # es) s))
       \<and> countdowns (run (CountdownInterval k # es) s) ! k = countdowns s ! k - 1
       \<and> canvas (run (CountdownInterval k # es) s) = canvas s
       \<and> bestScore (player (run (CountdownInterval k # es) s)) = bestScore (player s)"
proof -
  let ?t = "step (CountdownInterval k) s"
  note p = countdownInterval_pending [OF k c]
  have t: "?t = countdownInterval k s" using k by simp
  have g: "isGameOver ?t" using go p(1) by (simp add: t)
  have l: "k < length (countdowns ?t)" using k by (simp add: t p(2))
  note r = run_without_restart [OF g l es]
  show ?thesis
    using r k by (simp add: p)
qed

text \<open>
  C6: take a running game and a frame that ends it (in its collision pass the lives reach
  0). That frame starts a countdown at 3; it is the one at index
  \<open>length (countdowns s)\<close>. The game is still over after the first and after the second
  firing of that countdown, whatever callbacks run in between that do not themselves
  restart the game (frames, the spawn and movement timers, keys, firings of other
  countdowns that do not reach 0). The third firing restarts the game: it is running again
  with 3 lives, score 0, no asteroids, projectiles or particles, the player at rest in the
  centre of the canvas, and \<^verbatim>\<open>bestScore\<close> as it was.
\<close>

theorem restart_three_ticks_after_game_over:
  assumes run: "\<not> isGameOver s" and over: "isGameOver (step AnimationFrame s)"
    and q1: "without_restart (length (countdowns s)) es1 (step AnimationFrame s)"
    and q2: "without_restart (length (countdowns s)) es2
               (run (AnimationFrame # es1 @ [CountdownInterval (length (countdowns s))]) s)"
    and q3: "without_restart (length (countdowns s)) es3
               (run (AnimationFrame # es1 @ CountdownInterval (length (countdowns s)) # es2
                       @ [CountdownInterval (length (countdowns s))]) s)"
  shows "lives (player (step AnimationFrame s)) = 0
     \<and> length (countdowns s) < length (countdowns (step AnimationFrame s))
     \<and> countdowns (step AnimationFrame s) ! length (countdowns s) = 3
     \<and> isGameOver (run (AnimationFrame # es1) s)
     \<and> isGameOver (run (AnimationFrame # es1 @ CountdownInterval (length (countdowns s)) # es2) s)
     \<and> isGameOver (run (AnimationFrame # es1 @ CountdownInterval (length (countdowns s)) # es2
                          @ CountdownInterval (length (countdowns s)) # es3) s)
     \<and> \<not> isGameOver (run (AnimationFrame # es1 @ CountdownInterval (length (countdowns s)) # es2
                          @ CountdownInterval (length (countdowns s)) # es3
                          @ [CountdownInterval (length (countdowns s))]) s)
     \<and> lives (player (run (AnimationFrame # es1 @ CountdownInterval (length (countdowns s)) # es2
                          @ CountdownInterval (length (countdowns s)) # es3
                          @ [CountdownInterval (length (countdowns s))]) s)) = 3
     \<and> score (player (run (AnimationFrame # es1 @ CountdownInterval (length (countdowns s)) # es2
                          @ CountdownInterval (length (countdowns s)) # es3
                          @ [CountdownInterval (length (countdowns s))]) s)) = 0
     \<and> asteroids (run (AnimationFrame # es1 @ CountdownInterval (length (countdowns s)) # es2
                          @ CountdownInterval (length (countdowns s)) # es3
                          @ [CountdownInterval (length (countdowns s))]) s) = []
     \<and> projectiles (run (AnimationFrame # es1 @ CountdownInterval (length (countdowns s)) # es2
                          @ CountdownInterval (length (countdowns s)) # es3
                          @ [CountdownInterval (length (countdowns s))]) s) = []
     \<and> particles (run (AnimationFrame # es1 @ CountdownInterval (length (countdowns s)) # es2
                          @ CountdownInterval (length (countdowns s)) # es3
                          @ [CountdownInterval (length (countdowns s))]) s) = []
     \<and> position (player (run (AnimationFrame # es1 @ CountdownInterval (length (countdowns s)) # es2
                          @ CountdownInterval (length (countdowns s)) # es3
                          @ [CountdownInterval (length (countdowns s))]) s))
         = \<lparr>x = real (width (canvas s)) / 2, y = real (height (canvas s)) / 2\<rparr>
     \<and> velocity (player (run (AnimationFrame # es1 @ CountdownInterval (length (countdowns s)) # es2
                          @ CountdownInterval (length (countdowns s)) # es3
                          @ [CountdownInterval (length (countdowns s))]) s))
         = \<lparr>x = 0, y = 0\<rparr>
     \<and> bestScore (player (run (AnimationFrame # es1 @ CountdownInterval (length (countdowns s)) # es2
                          @ CountdownInterval (length (countdowns s)) # es3
                          @ [CountdownInterval (length (countdowns s))]) s))
         = bestScore (player s)"
proof -
  define k where "k = length (countdowns s)"
  define t where "t = step AnimationFrame s"
  let ?a = "run es1 t"
  let ?b = "run (CountdownInterval k # es2) ?a"
  let ?c = "run (CountdownInterval k # es3) ?b"
  let ?d = "countdownInterval k ?c"
  note f = frame_game_over [OF run over]
  from f(1) obtain m where m: "0 < m" "countdowns t = countdowns s @ replicate m 3"
    unfolding t_def by blast
  have kt: "k < length (countdowns t)" and three: "countdowns t ! k = 3"
    using m by (simp_all add: k_def nth_append)
  have gt: "isGameOver t" using over by (simp add: t_def)
  have r1: "run (AnimationFrame # es1 @ [CountdownInterval k]) s = step (CountdownInterval k) ?a"
    by (simp add: run_append t_def)
  have r2: "run (AnimationFrame # es1 @ CountdownInterval k # es2 @ [CountdownInterval k]) s
              = step (CountdownInterval k) ?b"
    by (simp add: run_append t_def)
  note a = run_without_restart [OF gt kt q1 [folded k_def t_def]]
  have ka: "k < length (countdowns ?a)" and ca: "countdowns ?a ! k - 1 \<noteq> 0"
    and ga: "isGameOver ?a"
    using a three by simp_all
  note b = countdown_tick_pending [OF ga ka ca q2 [folded k_def, unfolded r1]]
  have gb: "isGameOver ?b" and kb: "k < length (countdowns ?b)"
    and cb: "countdowns ?b ! k - 1 \<noteq> 0"
    using b a three by simp_all
  note c = countdown_tick_pending [OF gb kb cb q3 [folded k_def, unfolded r2]]
  have kc: "k < length (countdowns ?c)" and cc: "countdowns ?c ! k - 1 = 0"
    using c b a three by simp_all
  note d = countdownInterval_fires [OF cc]
  have cv: "canvas ?c = canvas s" and bs: "bestScore (player ?c) = bestScore (player s)"
    using a b c f(3,4) by (simp_all add: t_def)
  have e1: "run (AnimationFrame # es1) s = ?a"
    by (simp add: t_def)
  have e2: "run (AnimationFrame # es1 @ CountdownInterval k # es2) s = ?b"
    by (simp add: run_append t_def)
  have e3: "run (AnimationFrame # es1 @ CountdownInterval k # es2 @ CountdownInterval k # es3) s = ?c"
    by (simp add: run_append t_def)
  have e4: "run (AnimationFrame # es1 @ CountdownInterval k # es2 @ CountdownInterval k # es3
                   @ [CountdownInterval k]) s = ?d"
    using kc by (simp add: run_append t_def)
  have l0: "lives (player t) = 0"
    using f(2) by (simp add: t_def)
  show ?thesis
    unfolding k_def [symmetric] e1 e2 e3 e4 t_def [symmetric]
    using l0 kt three ga gb c d cv bs by simp
qed

lemma last_life_frame:
  "isGameOver (step AnimationFrame last_life)"
  "countdowns (step AnimationFrame last_life) = [3, 3]"
proof -
  define mid where "mid = particle_loop (length (particles last_life))
         (last_life\<lparr>frameRequests := frameRequests last_life - 1 + 1,
            player := Player_update (canvas last_life) (player last_life),
            projectiles := map Projectile_update (projectiles last_life),
            asteroids := map (Asteroid_update (canvas last_life)) (asteroids last_life)\<rparr>)"
  have fr: "frameRequests last_life \<noteq> 0" "\<not> isGameOver last_life"
    by (simp_all add: last_life_def arena_def)
  have eq: "step AnimationFrame last_life = checkCollisions mid"
    using fr animate_running [of "last_life\<lparr>frameRequests := frameRequests last_life - 1\<rparr>"]
    by (simp add: mid_def)
  have hits: "length (filter (within_reach mid) (asteroids mid)) = 2"
    by (simp add: mid_def last_life_def arena_def ship_def boulder_def viewport_def
          Asteroid_update_def Player_update_x Player_update_y Let_def Math_hypot_less)
  have l: "lives (player mid) = 1" "countdowns mid = []" "\<not> isGameOver mid"
    by (simp_all add: mid_def last_life_def arena_def)
  have g: "game_overs 1 2 = 2"
    by (simp add: game_overs_def)
  show "isGameOver (step AnimationFrame last_life)"
    unfolding eq checkCollisions_game_over(2) hits l(1) g using l(3) by simp
  show "countdowns (step AnimationFrame last_life) = [3, 3]"
    unfolding eq checkCollisions_game_over(1) hits l(1,2) g by (simp add: numeral_2_eq_2)
qed

text \<open>
  The ship on its last life between two boulders: the frame ends the game and starts two
  countdowns. They fire in turn; the third firing of the first one restarts the game.
\<close>

theorem restart_three_ticks_after_game_over_witness:
  "\<not> isGameOver last_life
   \<and> isGameOver (run [AnimationFrame] last_life)
   \<and> isGameOver (run [AnimationFrame, CountdownInterval 0, CountdownInterval 1,
                        CountdownInterval 0, CountdownInterval 1] last_life)
   \<and> \<not> isGameOver (run [AnimationFrame, CountdownInterval 0, CountdownInterval 1,
                        CountdownInterval 0, CountdownInterval 1, CountdownInterval 0] last_life)
   \<and> lives (player (run [AnimationFrame, CountdownInterval 0, CountdownInterval 1,
                        CountdownInterval 0, CountdownInterval 1, CountdownInterval 0] last_life)) = 3
   \<and> score (player (run [AnimationFrame, CountdownInterval 0, CountdownInterval 1,
                        CountdownInterval 0, CountdownInterval 1, CountdownInterval 0] last_life)) = 0
   \<and> asteroids (run [AnimationFrame, CountdownInterval 0, CountdownInterval 1,
                        CountdownInterval 0, CountdownInterval 1, CountdownInterval 0] last_life) = []
   \<and> position (player (run [AnimationFrame, CountdownInterval 0, CountdownInterval 1,
                        CountdownInterval 0, CountdownInterval 1, CountdownInterval 0] last_life))
       = \<lparr>x = 400, y = 300\<rparr>"
proof -
  define t where "t = step AnimationFrame last_life"
  define t1 where "t1 = countdownInterval 0 t"
  define t2 where "t2 = countdownInterval (Suc 0) t1"
  define t3 where "t3 = countdownInterval 0 t2"
  have s0: "countdowns t = [3, 3]" "isGameOver t"
    unfolding t_def by (rule last_life_frame(2), rule last_life_frame(1))
  have s1: "countdowns t1 = [2, 3]"
    by (simp add: t1_def countdownInterval_pending(2) s0)
  have s2: "countdowns t2 = [2, 2]"
    by (simp add: t2_def countdownInterval_pending(2) s1)
  have s3: "countdowns t3 = [1, 2]"
    by (simp add: t3_def countdownInterval_pending(2) s2)
  have c: "countdowns last_life = []" "\<not> isGameOver last_life" "canvas last_life = viewport"
    by (simp_all add: last_life_def arena_def)
  have u1: "step (CountdownInterval 0) t = t1"
    by (simp add: t1_def s0)
  have u2: "step (CountdownInterval 1) t1 = t2"
    by (simp add: t2_def s1)
  have u3: "step (CountdownInterval 0) t2 = t3"
    by (simp add: t3_def s2)
  have a1: "run (AnimationFrame # [] @ [CountdownInterval 0]) last_life = t1"
    by (simp only: run.simps append.simps t_def [symmetric] u1)
  have a2: "run (AnimationFrame # [] @ CountdownInterval 0 # [CountdownInterval 1]
                   @ [CountdownInterval 0]) last_life = t3"
    by (simp only: run.simps append.simps t_def [symmetric] u1 u2 u3)
  have q1: "without_restart (length (countdowns last_life)) [] (step AnimationFrame last_life)"
    by simp
  have q2: "without_restart (length (countdowns last_life)) [CountdownInterval 1]
              (run (AnimationFrame # [] @ [CountdownInterval (length (countdowns last_life))])
                 last_life)"
    unfolding c(1) list.size a1 by (simp add: s1)
  have q3: "without_restart (length (countdowns last_life)) [CountdownInterval 1]
              (run (AnimationFrame # [] @ CountdownInterval (length (countdowns last_life))
                       # [CountdownInterval 1]
                       @ [CountdownInterval (length (countdowns last_life))]) last_life)"
    unfolding c(1) list.size a2 by (simp add: s3)
  have over: "isGameOver (step AnimationFrame last_life)"
    by (rule last_life_frame(1))
  have centre: "\<lparr>x = real (width viewport) / 2, y = real (height viewport) / 2\<rparr>
                  = \<lparr>x = 400, y = 300\<rparr>"
    by (simp add: viewport_def)
  note th = restart_three_ticks_after_game_over [OF c(2) over q1 q2 q3,
      unfolded c(1) list.size append.simps c(3) centre]
  from th c(2) show ?thesis
    by blast
qed

subsection \<open>Friction\<close>

lemma FRICTION_bounds: "1 / 2 < FRICTION" "FRICTION < 1" "0 < FRICTION"
  by (simp_all add: FRICTION_value)

text \<open>One friction step on a velocity component.\<close>

lemma friction_step_binary64: "is_binary64 (binary64_round (v * FRICTION))"
  by (rule is_binary64_round)

lemma friction_step_abs:
  "\<bar>binary64_round (v * FRICTION)\<bar> = binary64_round (\<bar>v\<bar> * FRICTION)"
  using FRICTION_bounds(3) by (simp add: binary64_round_abs abs_mult)

lemma friction_step_le:
  assumes "is_binary64 v"
  shows "\<bar>binary64_round (v * FRICTION)\<bar> \<le> \<bar>v\<bar>"
proof -
  have "0 \<le> \<bar>v\<bar> * FRICTION" "\<bar>v\<bar> * FRICTION \<le> \<bar>v\<bar>"
    using FRICTION_bounds by (simp_all add: mult_left_le)
  from binary64_round_le [OF is_binary64_abs [OF assms] this] show ?thesis
    by (simp only: friction_step_abs)
qed

lemma friction_step_nonzero:
  assumes "is_binary64 v" "v \<noteq> 0"
  shows "binary64_round (v * FRICTION) \<noteq> 0"
proof -
  have "(2::real) powi (- 1075 + 1) = 2 powi (- 1075) * 2 powi 1"
    by (rule power_int_add) simp
  then have half: "(2::real) powi (- 1074) = 2 powi (- 1075) * 2"
    by simp
  have "2 powi (- 1075) * 2 \<le> \<bar>v\<bar>"
    using is_binary64_least [OF assms] by (simp only: half)
  moreover have "\<bar>v\<bar> * (1 / 2) < \<bar>v\<bar> * FRICTION"
    using assms(2) FRICTION_bounds(1) by (intro mult_strict_left_mono) simp_all
  ultimately have "2 powi (- 1075) < \<bar>v\<bar> * FRICTION"
    by linarith
  then have "0 < binary64_round (\<bar>v\<bar> * FRICTION)"
    by (rule binary64_round_positive)
  then have "0 < \<bar>binary64_round (v * FRICTION)\<bar>"
    by (simp only: friction_step_abs)
  then show ?thesis
    by simp
qed

lemma Player_update_velocity:
  "velocity (Player_update cv p) =
     \<lparr>x = binary64_round (x (velocity p) * FRICTION),
      y = binary64_round (y (velocity p) * FRICTION)\<rparr>"
  by (simp add: Player_update_def Let_def)

lemma Player_updates_velocity:
  "velocity ((Player_update cv ^^ N) p) =
     \<lparr>x = ((\<lambda>v. binary64_round (v * FRICTION)) ^^ N) (x (velocity p)),
      y = ((\<lambda>v. binary64_round (v * FRICTION)) ^^ N) (y (velocity p))\<rparr>"
  by (induction N) (simp_all add: Player_update_velocity)

lemma friction_steps_binary64:
  "is_binary64 v \<Longrightarrow> is_binary64 (((\<lambda>v. binary64_round (v * FRICTION)) ^^ N) v)"
  by (induction N) (simp_all add: is_binary64_round)

lemma friction_steps_nonzero:
  "is_binary64 v \<Longrightarrow> v \<noteq> 0 \<Longrightarrow> ((\<lambda>v. binary64_round (v * FRICTION)) ^^ N) v \<noteq> 0"
proof (induction N)
  case 0
  then show ?case by simp
next
  case (Suc N)
  from friction_step_nonzero [OF friction_steps_binary64 [OF Suc.prems(1)] Suc.IH [OF Suc.prems]]
  show ?case by simp
qed

lemma Math_hypot_mono:
  assumes "\<bar>u\<bar> \<le> \<bar>u'\<bar>" "\<bar>v\<bar> \<le> \<bar>v'\<bar>"
  shows "Math_hypot u v \<le> Math_hypot u' v'"
proof -
  have "u\<^sup>2 \<le> u'\<^sup>2" "v\<^sup>2 \<le> v'\<^sup>2"
    using assms by (simp_all only: abs_le_square_iff)
  then show ?thesis
    unfolding Math_hypot_def by (intro real_sqrt_le_mono add_mono)
qed

lemma Math_hypot_eq_0: "(Math_hypot u v = 0) = (u = 0 \<and> v = 0)"
  by (simp add: Math_hypot_def real_sqrt_eq_zero_cancel_iff sum_power2_eq_zero_iff)

lemma Math_hypot_axis: "Math_hypot u 0 = \<bar>u\<bar>"
  by (simp add: Math_hypot_def)

lemma is_binary64_0: "is_binary64 0"
  by (simp add: is_binary64_def)

lemma is_binary64_3: "is_binary64 3"
proof -
  have "binary64_round 3
          = 2 powi (1 - 52) * of_int (round_half_even (3 / 2 powi (1 - 52)))"
    by (rule binary64_round_normal) simp_all
  also have "\<dots> = 3"
    by (simp add: round_half_even_def power_int_minus field_simps)
  finally show ?thesis by (simp only: is_binary64_def)
qed

lemma is_binary64_4: "is_binary64 4"
proof -
  have "binary64_round 4
          = 2 powi (2 - 52) * of_int (round_half_even (4 / 2 powi (2 - 52)))"
    by (rule binary64_round_normal) simp_all
  also have "\<dots> = 4"
    by (simp add: round_half_even_def power_int_minus field_simps)
  finally show ?thesis by (simp only: is_binary64_def)
qed

lemma friction_step_3:
  "binary64_round (3 * FRICTION) = 3343922723322593 / 1125899906842624"
proof -
  have "binary64_round (3 * FRICTION)
          = 2 powi (1 - 52) * of_int (round_half_even ((3 * FRICTION) / 2 powi (1 - 52)))"
    by (rule binary64_round_normal) (simp_all add: FRICTION_value)
  also have "\<dots> = 3343922723322593 / 1125899906842624"
    by (simp add: FRICTION_value round_half_even_def power_int_minus field_simps)
  finally show ?thesis .
qed

lemma round_half_even_1: "round_half_even 1 = 1"
  by (simp add: round_half_even_def)

lemma round_half_even_FRICTION: "round_half_even FRICTION = 1"
  by (simp add: FRICTION_value round_half_even_def)

lemma least_subnormal_below: "(2::real) powi (- 1074) < 2 powi (- 1022)"
  by (rule power_int_strict_increasing) simp_all

lemma is_binary64_least_subnormal: "is_binary64 (2 powi (- 1074))"
proof -
  define t where "t = (2::real) powi (- 1074)"
  have tp: "0 < t" by (simp add: t_def)
  have "t < 2 powi (- 1022)"
    unfolding t_def by (rule least_subnormal_below)
  with tp have "binary64_round t = 2 powi (- 1074) * of_int (round_half_even (t / 2 powi (- 1074)))"
    by (rule binary64_round_subnormal)
  also have "t / 2 powi (- 1074) = 1"
    using tp by (simp add: t_def)
  finally have "binary64_round t = t"
    by (simp only: round_half_even_1 t_def of_int_1 mult_1_right)
  then show ?thesis
    by (simp only: is_binary64_def t_def)
qed

lemma friction_step_least_subnormal:
  "binary64_round (2 powi (- 1074) * FRICTION) = 2 powi (- 1074)"
proof -
  define t where "t = (2::real) powi (- 1074)"
  have tp: "0 < t" by (simp add: t_def)
  have "t * FRICTION < t * 1"
    using tp FRICTION_bounds(2) by (simp only: mult_less_cancel_left_pos)
  moreover have "t < 2 powi (- 1022)"
    unfolding t_def by (rule least_subnormal_below)
  ultimately have "t * FRICTION < 2 powi (- 1022)" by simp
  moreover have "0 < t * FRICTION"
    using tp FRICTION_bounds(3) by simp
  ultimately have "binary64_round (t * FRICTION)
      = 2 powi (- 1074) * of_int (round_half_even (t * FRICTION / 2 powi (- 1074)))"
    by (rule binary64_round_subnormal [rotated])
  also have "t * FRICTION / 2 powi (- 1074) = FRICTION"
    using tp by (simp add: t_def)
  finally show ?thesis
    by (simp only: round_half_even_FRICTION t_def of_int_1 mult_1_right)
qed

lemma friction_steps_least_subnormal:
  "((\<lambda>v. binary64_round (v * FRICTION)) ^^ N) (2 powi (- 1074)) = 2 powi (- 1074)"
  by (induction N) (simp_all only: funpow.simps o_apply id_apply friction_step_least_subnormal)

lemma friction_steps_0: "((\<lambda>v. binary64_round (v * FRICTION)) ^^ N) 0 = 0"
  by (induction N) simp_all

lemma cruiser_velocity: "velocity cruiser = \<lparr>x = 3, y = 0\<rparr>"
  by (simp add: cruiser_def)

lemma drifter_velocity: "velocity drifter = \<lparr>x = 2 powi (- 1074), y = 0\<rparr>"
  by (simp only: drifter_def) simp

subsection \<open>The rounding error of the friction\<close>

lemma round_half_even_error: "\<bar>of_int (round_half_even q) - q\<bar> \<le> 1 / 2"
proof -
  define f where "f = \<lfloor>q\<rfloor>"
  have "of_int f \<le> q" "q < of_int f + 1"
    unfolding f_def by linarith+
  then have "\<bar>of_int (if q - of_int f < 1 / 2 then f else if q - of_int f > 1 / 2 then f + 1
                         else if even f then f else f + 1) - q\<bar> \<le> 1 / 2"
    by (auto simp: abs_if)
  then show ?thesis
    by (simp only: round_half_even_def Let_def f_def)
qed

lemma binary64_round_error_pos:
  assumes "0 < v"
  shows "\<bar>binary64_round v - v\<bar> \<le> binary64_ulp v / 2"
proof -
  define u where "u = binary64_ulp v"
  define n where "n = round_half_even (v / u)"
  have up: "0 < u" by (simp add: u_def binary64_ulp_pos)
  have "binary64_round v - v = u * (of_int n - v / u)"
    using up by (simp add: binary64_round_pos [OF assms] u_def n_def field_simps)
  then have "\<bar>binary64_round v - v\<bar> = u * \<bar>of_int n - v / u\<bar>"
    using up by (simp add: abs_mult)
  also have "\<dots> \<le> u * (1 / 2)"
    using up round_half_even_error [of "v / u"]
    by (simp only: n_def mult_le_cancel_left_pos)
  finally show ?thesis by (simp add: u_def)
qed

lemma binary64_round_error: "\<bar>binary64_round v - v\<bar> \<le> binary64_ulp \<bar>v\<bar> / 2"
proof -
  consider "v = 0" | "0 < v" | "v < 0" by linarith
  then show ?thesis
  proof cases
    case 1
    then show ?thesis
      using binary64_ulp_pos [of 0] by simp
  next
    case 2
    with binary64_round_error_pos [OF 2] show ?thesis by simp
  next
    case 3
    then have "0 < - v" by simp
    from binary64_round_error_pos [OF this] 3 show ?thesis
      by (simp add: binary64_round_minus abs_if split: if_splits)
  qed
qed

lemma binary64_ulp_le:
  assumes "0 < m"
  shows "binary64_ulp m \<le> 2 powi (- 1074) + m / 2 ^ 52"
proof (cases "binary64_exponent m = - 1022")
  case True
  have "0 \<le> m / 2 ^ 52" using assms by simp
  moreover have "binary64_ulp m = 2 powi (- 1074)"
    by (simp add: binary64_ulp_def True)
  ultimately show ?thesis by linarith
next
  case False
  have "binary64_ulp m * 2 ^ 52 \<le> m"
    using binary64_exponent_normal [OF assms False] binary64_ulp_bottom [of m] by simp
  then have "binary64_ulp m \<le> m / 2 ^ 52"
    by (simp add: field_simps)
  moreover have "(0::real) < 2 powi (- 1074)" by simp
  ultimately show ?thesis by linarith
qed

lemma friction_step_error:
  "\<bar>binary64_round (v * FRICTION) - v * FRICTION\<bar> \<le> 2 powi (- 1075) + \<bar>v\<bar> / 2 ^ 53"
proof (cases "v = 0")
  case True
  have "(0::real) \<le> 2 powi (- 1075)" by simp
  with True show ?thesis by simp
next
  case False
  define m where "m = \<bar>v * FRICTION\<bar>"
  define t where "t = (2::real) powi (- 1075)"
  have "(2::real) powi (- 1075 + 1) = 2 powi (- 1075) * 2 powi 1"
    by (rule power_int_add) simp
  then have half: "(2::real) powi (- 1074) = t * 2"
    by (simp add: t_def)
  have mp: "0 < m"
    using False FRICTION_bounds(3) by (simp add: m_def)
  have "m = \<bar>v\<bar> * FRICTION"
    using FRICTION_bounds(3) by (simp add: m_def abs_mult)
  also have "\<dots> \<le> \<bar>v\<bar> * 1"
    using FRICTION_bounds(2) by (intro mult_left_mono) simp_all
  finally have mv: "m \<le> \<bar>v\<bar>" by simp
  have "\<bar>binary64_round (v * FRICTION) - v * FRICTION\<bar> \<le> binary64_ulp m / 2"
    unfolding m_def by (rule binary64_round_error)
  also have "\<dots> \<le> (t * 2 + m / 2 ^ 52) / 2"
    using binary64_ulp_le [OF mp] by (simp only: half divide_right_mono zero_le_numeral)
  also have "\<dots> = t + m / 2 ^ 53"
    by simp
  also have "\<dots> \<le> t + \<bar>v\<bar> / 2 ^ 53"
    using mv by (simp add: divide_right_mono)
  finally show ?thesis by (simp only: t_def)
qed

lemma friction_steps_le:
  "is_binary64 v \<Longrightarrow> \<bar>((\<lambda>v. binary64_round (v * FRICTION)) ^^ N) v\<bar> \<le> \<bar>v\<bar>"
proof (induction N)
  case 0
  then show ?case by simp
next
  case (Suc N)
  have "\<bar>((\<lambda>v. binary64_round (v * FRICTION)) ^^ Suc N) v\<bar>
          \<le> \<bar>((\<lambda>v. binary64_round (v * FRICTION)) ^^ N) v\<bar>"
    using friction_step_le [OF friction_steps_binary64 [OF Suc.prems]] by simp
  with Suc.IH [OF Suc.prems] show ?case by linarith
qed

lemma friction_steps_error:
  assumes "is_binary64 v"
  shows "\<bar>((\<lambda>v. binary64_round (v * FRICTION)) ^^ N) v - v * FRICTION ^ N\<bar>
           \<le> of_nat N * (2 powi (- 1075) + \<bar>v\<bar> / 2 ^ 53)"
proof (induction N)
  case 0
  then show ?case by simp
next
  case (Suc N)
  define t where "t = (2::real) powi (- 1075)"
  define w where "w = ((\<lambda>v. binary64_round (v * FRICTION)) ^^ N) v"
  define r where "r = v * FRICTION ^ N"
  have wv: "\<bar>w\<bar> \<le> \<bar>v\<bar>"
    unfolding w_def using assms by (rule friction_steps_le)
  have ih: "\<bar>w - r\<bar> \<le> of_nat N * (t + \<bar>v\<bar> / 2 ^ 53)"
    using Suc.IH by (simp only: w_def r_def t_def)
  have "\<bar>binary64_round (w * FRICTION) - w * FRICTION\<bar> \<le> t + \<bar>w\<bar> / 2 ^ 53"
    unfolding t_def by (rule friction_step_error)
  also have "\<dots> \<le> t + \<bar>v\<bar> / 2 ^ 53"
    using wv by (simp add: divide_right_mono)
  finally have step: "\<bar>binary64_round (w * FRICTION) - w * FRICTION\<bar> \<le> t + \<bar>v\<bar> / 2 ^ 53" .
  have "\<bar>w * FRICTION - r * FRICTION\<bar> = \<bar>w - r\<bar> * FRICTION"
    using FRICTION_bounds(3) by (simp add: abs_mult left_diff_distrib [symmetric])
  also have "\<dots> \<le> \<bar>w - r\<bar> * 1"
    using FRICTION_bounds(2) by (intro mult_left_mono) simp_all
  finally have "\<bar>w * FRICTION - r * FRICTION\<bar> \<le> of_nat N * (t + \<bar>v\<bar> / 2 ^ 53)"
    using ih by simp
  with step have "\<bar>binary64_round (w * FRICTION) - r * FRICTION\<bar>
                    \<le> (t + \<bar>v\<bar> / 2 ^ 53) + of_nat N * (t + \<bar>v\<bar> / 2 ^ 53)"
    by linarith
  also have "\<dots> = of_nat (Suc N) * (t + \<bar>v\<bar> / 2 ^ 53)"
    by (simp only: of_nat_Suc distrib_right mult_1 add.commute)
  finally have "\<bar>binary64_round (w * FRICTION) - r * FRICTION\<bar>
                  \<le> of_nat (Suc N) * (t + \<bar>v\<bar> / 2 ^ 53)" .
  moreover have "((\<lambda>v. binary64_round (v * FRICTION)) ^^ Suc N) v = binary64_round (w * FRICTION)"
    by (simp add: w_def)
  moreover have "v * FRICTION ^ Suc N = r * FRICTION"
    by (simp add: r_def)
  ultimately show ?case
    by (simp only: t_def)
qed

lemma FRICTION_near: "\<bar>FRICTION - 99 / 100\<bar> \<le> 1 / 2 ^ 56"
  by (simp add: FRICTION_value)

lemma power_diff_le:
  fixes b c :: real
  assumes "0 \<le> b" "b \<le> 1" "0 \<le> c" "c \<le> 1"
  shows "\<bar>b ^ N - c ^ N\<bar> \<le> of_nat N * \<bar>b - c\<bar>"
proof (induction N)
  case 0
  then show ?case by simp
next
  case (Suc N)
  have cn: "0 \<le> c ^ N" "c ^ N \<le> 1"
    using assms by (simp_all add: power_le_one)
  have "b ^ Suc N - c ^ Suc N = b * (b ^ N - c ^ N) + c ^ N * (b - c)"
    by (simp add: algebra_simps)
  then have "\<bar>b ^ Suc N - c ^ Suc N\<bar> \<le> \<bar>b * (b ^ N - c ^ N)\<bar> + \<bar>c ^ N * (b - c)\<bar>"
    by (simp only: abs_triangle_ineq)
  also have "\<bar>b * (b ^ N - c ^ N)\<bar> = b * \<bar>b ^ N - c ^ N\<bar>"
    using assms(1) by (simp add: abs_mult)
  also have "\<bar>c ^ N * (b - c)\<bar> = c ^ N * \<bar>b - c\<bar>"
    using cn(1) by (simp add: abs_mult)
  finally have "\<bar>b ^ Suc N - c ^ Suc N\<bar> \<le> b * \<bar>b ^ N - c ^ N\<bar> + c ^ N * \<bar>b - c\<bar>" .
  moreover have "b * \<bar>b ^ N - c ^ N\<bar> \<le> 1 * \<bar>b ^ N - c ^ N\<bar>"
    using assms(2) by (intro mult_right_mono) simp_all
  moreover have "c ^ N * \<bar>b - c\<bar> \<le> 1 * \<bar>b - c\<bar>"
    using cn(2) by (intro mult_right_mono) simp_all
  ultimately have "\<bar>b ^ Suc N - c ^ Suc N\<bar> \<le> of_nat N * \<bar>b - c\<bar> + \<bar>b - c\<bar>"
    using Suc.IH by linarith
  then show ?case
    by (simp add: algebra_simps)
qed

lemma FRICTION_power_near: "\<bar>FRICTION ^ N - (99 / 100) ^ N\<bar> \<le> of_nat N / 2 ^ 56"
proof -
  have "\<bar>FRICTION ^ N - (99 / 100) ^ N\<bar> \<le> of_nat N * \<bar>FRICTION - 99 / 100\<bar>"
    using FRICTION_bounds by (intro power_diff_le) simp_all
  also have "\<dots> \<le> of_nat N * (1 / 2 ^ 56)"
    using FRICTION_near by (intro mult_left_mono) simp_all
  finally show ?thesis by simp
qed

lemma Math_hypot_scale:
  assumes "0 \<le> c"
  shows "Math_hypot (u * c) (v * c) = Math_hypot u v * c"
proof -
  have "(u * c)\<^sup>2 + (v * c)\<^sup>2 = (u\<^sup>2 + v\<^sup>2) * c\<^sup>2"
    by (simp add: power_mult_distrib distrib_right)
  then show ?thesis
    using assms by (simp add: Math_hypot_def real_sqrt_mult)
qed

lemma Math_hypot_triangle: "Math_hypot u v \<le> Math_hypot (u - u') (v - v') + Math_hypot u' v'"
  using real_sqrt_sum_squares_triangle_ineq [of "u - u'" u' "v - v'" v']
  by (simp add: Math_hypot_def)

lemma Math_hypot_flip: "Math_hypot (u' - u) (v' - v) = Math_hypot (u - u') (v - v')"
  by (simp add: Math_hypot_def power2_commute)

lemma Math_hypot_diff: "\<bar>Math_hypot u v - Math_hypot u' v'\<bar> \<le> \<bar>u - u'\<bar> + \<bar>v - v'\<bar>"
proof -
  have "Math_hypot (u - u') (v - v') \<le> \<bar>u - u'\<bar> + \<bar>v - v'\<bar>"
    unfolding Math_hypot_def by (rule sqrt_sum_squares_le_sum_abs)
  with Math_hypot_triangle [of u v u' v'] Math_hypot_triangle [of u' v' u v]
       Math_hypot_flip [of u u' v v']
  show ?thesis by linarith
qed

lemma Math_hypot_ge: "\<bar>u\<bar> \<le> Math_hypot u v" "\<bar>v\<bar> \<le> Math_hypot u v"
  by (simp_all add: Math_hypot_def real_le_rsqrt real_le_lsqrt)

lemma velocity_magnitude_error:
  assumes "is_binary64 (x (velocity p))" "is_binary64 (y (velocity p))"
  shows "\<bar>velocity_magnitude ((Player_update cv ^^ N) p) - velocity_magnitude p * (99 / 100) ^ N\<bar>
           \<le> of_nat N * (2 powi (- 1074) + velocity_magnitude p / 2 ^ 51)"
proof -
  define t where "t = (2::real) powi (- 1075)"
  define vx where "vx = x (velocity p)"
  define vy where "vy = y (velocity p)"
  define xN where "xN = ((\<lambda>v. binary64_round (v * FRICTION)) ^^ N) vx"
  define yN where "yN = ((\<lambda>v. binary64_round (v * FRICTION)) ^^ N) vy"
  define m where "m = Math_hypot vx vy"
  define n where "n = (of_nat N :: real)"
  define K where "K = n * t"
  define L where "L = n * m"
  have "(2::real) powi (- 1075 + 1) = 2 powi (- 1075) * 2 powi 1"
    by (rule power_int_add) simp
  then have half: "(2::real) powi (- 1074) = t * 2"
    by (simp add: t_def)
  have n0: "0 \<le> n" by (simp add: n_def)
  have m0: "0 \<le> m" by (simp add: m_def Math_hypot_nonneg)
  have L0: "0 \<le> L" using n0 m0 by (simp add: L_def)
  have ex: "\<bar>xN - vx * FRICTION ^ N\<bar> \<le> n * (t + \<bar>vx\<bar> / 2 ^ 53)"
    unfolding xN_def n_def t_def vx_def using assms(1) by (rule friction_steps_error)
  have ey: "\<bar>yN - vy * FRICTION ^ N\<bar> \<le> n * (t + \<bar>vy\<bar> / 2 ^ 53)"
    unfolding yN_def n_def t_def vy_def using assms(2) by (rule friction_steps_error)
  have "t + \<bar>vx\<bar> / 2 ^ 53 \<le> t + m / 2 ^ 53"
    using Math_hypot_ge(1) [where u = vx and v = vy] by (simp add: m_def divide_right_mono)
  then have "n * (t + \<bar>vx\<bar> / 2 ^ 53) \<le> n * (t + m / 2 ^ 53)"
    using n0 by (rule mult_left_mono)
  with ex have ex': "\<bar>xN - vx * FRICTION ^ N\<bar> \<le> K + L / 2 ^ 53"
    by (simp add: K_def L_def algebra_simps)
  have "t + \<bar>vy\<bar> / 2 ^ 53 \<le> t + m / 2 ^ 53"
    using Math_hypot_ge(2) [where u = vx and v = vy] by (simp add: m_def divide_right_mono)
  then have "n * (t + \<bar>vy\<bar> / 2 ^ 53) \<le> n * (t + m / 2 ^ 53)"
    using n0 by (rule mult_left_mono)
  with ey have ey': "\<bar>yN - vy * FRICTION ^ N\<bar> \<le> K + L / 2 ^ 53"
    by (simp add: K_def L_def algebra_simps)
  have "\<bar>Math_hypot xN yN - Math_hypot (vx * FRICTION ^ N) (vy * FRICTION ^ N)\<bar>
          \<le> \<bar>xN - vx * FRICTION ^ N\<bar> + \<bar>yN - vy * FRICTION ^ N\<bar>"
    by (rule Math_hypot_diff)
  moreover have "Math_hypot (vx * FRICTION ^ N) (vy * FRICTION ^ N) = m * FRICTION ^ N"
    unfolding m_def using FRICTION_bounds(3) by (intro Math_hypot_scale) simp
  ultimately have one: "\<bar>Math_hypot xN yN - m * FRICTION ^ N\<bar> \<le> K * 2 + L / 2 ^ 52"
    using ex' ey' by simp
  have "\<bar>m * FRICTION ^ N - m * (99 / 100) ^ N\<bar> = m * \<bar>FRICTION ^ N - (99 / 100) ^ N\<bar>"
    using m0 by (simp add: abs_mult right_diff_distrib [symmetric])
  also have "\<dots> \<le> m * (n / 2 ^ 56)"
    unfolding n_def using m0 FRICTION_power_near [of N] by (rule mult_left_mono [rotated])
  finally have two: "\<bar>m * FRICTION ^ N - m * (99 / 100) ^ N\<bar> \<le> L / 2 ^ 56"
    by (simp add: L_def algebra_simps)
  have "\<bar>Math_hypot xN yN - m * (99 / 100) ^ N\<bar> \<le> K * 2 + L / 2 ^ 52 + L / 2 ^ 56"
    using one two by linarith
  also have "\<dots> \<le> K * 2 + L / 2 ^ 51"
    using L0 by simp
  also have "\<dots> = n * (t * 2 + m / 2 ^ 51)"
    by (simp add: K_def L_def algebra_simps)
  finally have "\<bar>Math_hypot xN yN - m * (99 / 100) ^ N\<bar> \<le> n * (t * 2 + m / 2 ^ 51)" .
  moreover have "velocity_magnitude ((Player_update cv ^^ N) p) = Math_hypot xN yN"
    by (simp add: velocity_magnitude_def Player_updates_velocity xN_def yN_def vx_def vy_def)
  moreover have "velocity_magnitude p = m"
    by (simp add: velocity_magnitude_def m_def vx_def vy_def)
  ultimately show ?thesis
    by (simp only: half n_def)
qed

lemma velocity_magnitude_decreasing:
  assumes "is_binary64 (x (velocity p))" "is_binary64 (y (velocity p))"
  shows "velocity_magnitude ((Player_update cv ^^ Suc N) p)
           \<le> velocity_magnitude ((Player_update cv ^^ N) p)"
proof -
  define q where "q = (Player_update cv ^^ N) p"
  have b: "is_binary64 (x (velocity q))" "is_binary64 (y (velocity q))"
    using assms by (simp_all add: q_def Player_updates_velocity friction_steps_binary64)
  have "Math_hypot (binary64_round (x (velocity q) * FRICTION))
                   (binary64_round (y (velocity q) * FRICTION))
          \<le> Math_hypot (x (velocity q)) (y (velocity q))"
    using b by (intro Math_hypot_mono friction_step_le)
  then show ?thesis
    by (simp add: velocity_magnitude_def Player_update_velocity q_def)
qed

lemma velocity_magnitude_nonzero:
  assumes "is_binary64 (x (velocity p))" "is_binary64 (y (velocity p))"
    and "velocity_magnitude p \<noteq> 0"
  shows "velocity_magnitude ((Player_update cv ^^ N) p) \<noteq> 0"
proof -
  from assms(3) consider "x (velocity p) \<noteq> 0" | "y (velocity p) \<noteq> 0"
    by (auto simp: velocity_magnitude_def Math_hypot_eq_0)
  then show ?thesis
  proof cases
    case 1
    from friction_steps_nonzero [OF assms(1) 1] show ?thesis
      by (simp add: velocity_magnitude_def Math_hypot_eq_0 Player_updates_velocity)
  next
    case 2
    from friction_steps_nonzero [OF assms(2) 2] show ?thesis
      by (simp add: velocity_magnitude_def Math_hypot_eq_0 Player_updates_velocity)
  qed
qed

lemma friction_step_less:
  assumes "2 powi (- 1068) \<le> \<bar>v\<bar>"
  shows "\<bar>binary64_round (v * FRICTION)\<bar> < \<bar>v\<bar>"
proof -
  define t where "t = (2::real) powi (- 1075)"
  define m where "m = \<bar>v\<bar>"
  have "(2::real) powi (- 1075 + 7) = 2 powi (- 1075) * 2 powi 7"
    by (rule power_int_add) simp
  then have "(2::real) powi (- 1068) = t * 128"
    by (simp add: t_def)
  with assms have tm: "t * 128 \<le> m"
    by (simp only: m_def)
  have tp: "0 < t" by (simp add: t_def)
  have "\<bar>binary64_round (v * FRICTION) - v * FRICTION\<bar> \<le> t + m / 2 ^ 53"
    unfolding t_def m_def by (rule friction_step_error)
  moreover have "\<bar>v * FRICTION\<bar> = m * (4458563631096791 / 4503599627370496)"
    by (simp add: abs_mult m_def FRICTION_value)
  ultimately have "\<bar>binary64_round (v * FRICTION)\<bar>
                     \<le> m * (4458563631096791 / 4503599627370496) + t + m / 2 ^ 53"
    by linarith
  with tm tp show ?thesis
    unfolding m_def [symmetric] by simp
qed

lemma Math_hypot_less_left:
  assumes "\<bar>u\<bar> < \<bar>u'\<bar>" "\<bar>v\<bar> \<le> \<bar>v'\<bar>"
  shows "Math_hypot u v < Math_hypot u' v'"
proof -
  have "\<bar>u\<bar>\<^sup>2 < \<bar>u'\<bar>\<^sup>2"
    using assms(1) by (intro power_strict_mono) simp_all
  then have "u\<^sup>2 < u'\<^sup>2"
    by (simp only: power2_abs)
  moreover have "v\<^sup>2 \<le> v'\<^sup>2"
    using assms(2) by (simp only: abs_le_square_iff)
  ultimately show ?thesis
    unfolding Math_hypot_def by (intro real_sqrt_less_mono add_less_le_mono)
qed

lemma Math_hypot_commute: "Math_hypot u v = Math_hypot v u"
  by (simp add: Math_hypot_def add.commute)

lemma Math_hypot_less_right:
  assumes "\<bar>u\<bar> \<le> \<bar>u'\<bar>" "\<bar>v\<bar> < \<bar>v'\<bar>"
  shows "Math_hypot u v < Math_hypot u' v'"
  using Math_hypot_less_left [OF assms(2,1)] by (simp only: Math_hypot_commute [of u] Math_hypot_commute [of u'])

lemma velocity_magnitude_strict:
  assumes "is_binary64 (x (velocity p))" "is_binary64 (y (velocity p))"
    and "2 powi (- 1067) \<le> velocity_magnitude ((Player_update cv ^^ N) p)"
  shows "velocity_magnitude ((Player_update cv ^^ Suc N) p)
           < velocity_magnitude ((Player_update cv ^^ N) p)"
proof -
  define q where "q = (Player_update cv ^^ N) p"
  define s where "s = (2::real) powi (- 1068)"
  have b: "is_binary64 (x (velocity q))" "is_binary64 (y (velocity q))"
    using assms(1,2) by (simp_all add: q_def Player_updates_velocity friction_steps_binary64)
  have "(2::real) powi (- 1068 + 1) = 2 powi (- 1068) * 2 powi 1"
    by (rule power_int_add) simp
  then have "(2::real) powi (- 1067) = s * 2"
    by (simp add: s_def)
  with assms(3) have "s * 2 \<le> Math_hypot (x (velocity q)) (y (velocity q))"
    by (simp only: velocity_magnitude_def q_def)
  moreover have "Math_hypot (x (velocity q)) (y (velocity q)) \<le> \<bar>x (velocity q)\<bar> + \<bar>y (velocity q)\<bar>"
    unfolding Math_hypot_def by (rule sqrt_sum_squares_le_sum_abs)
  ultimately consider "s \<le> \<bar>x (velocity q)\<bar>" | "s \<le> \<bar>y (velocity q)\<bar>"
    by linarith
  then have "Math_hypot (binary64_round (x (velocity q) * FRICTION))
                        (binary64_round (y (velocity q) * FRICTION))
               < Math_hypot (x (velocity q)) (y (velocity q))"
  proof cases
    case 1
    then have "\<bar>binary64_round (x (velocity q) * FRICTION)\<bar> < \<bar>x (velocity q)\<bar>"
      unfolding s_def by (rule friction_step_less)
    then show ?thesis
      using friction_step_le [OF b(2)] by (rule Math_hypot_less_left)
  next
    case 2
    then have "\<bar>binary64_round (y (velocity q) * FRICTION)\<bar> < \<bar>y (velocity q)\<bar>"
      unfolding s_def by (rule friction_step_less)
    with friction_step_le [OF b(1)] show ?thesis
      by (rule Math_hypot_less_right)
  qed
  then show ?thesis
    by (simp add: velocity_magnitude_def Player_update_velocity q_def)
qed

subsection \<open>Friction on binary64 numbers\<close>

text \<open>
  C7, as stated: for every initial velocity of the player and every \<open>N\<close>, the magnitude of
  the velocity after \<open>N\<close> updates equals \<open>initialSpeed * 0.99\<^sup>N\<close>, and this sequence is
  strictly decreasing. The script computes with binary64 numbers, and both parts fail there.
  A ship moving at speed 3 along the x axis has, after one update, the speed
  \<open>3343922723322593 / 2\<^sup>5\<^sup>0\<close> (printed as 2.9699999999999998), which is not \<open>3 * 0.99\<close>.
  A ship moving at the least positive binary64 number \<open>2\<^sup>-\<^sup>1\<^sup>0\<^sup>7\<^sup>4\<close> (printed as 5e-324) keeps
  exactly that speed, through one update and through a thousand: the product with
  \<^verbatim>\<open>FRICTION\<close> is rounded back to the number itself, so the sequence stops decreasing.
\<close>

theorem friction_exact_decay_counterexample:
  "is_binary64 (x (velocity cruiser)) \<and> is_binary64 (y (velocity cruiser))
   \<and> velocity_magnitude cruiser = 3
   \<and> velocity_magnitude ((Player_update viewport ^^ 1) cruiser)
       = 3343922723322593 / 1125899906842624
   \<and> velocity_magnitude ((Player_update viewport ^^ 1) cruiser)
       \<noteq> velocity_magnitude cruiser * (99 / 100) ^ 1
   \<and> is_binary64 (x (velocity drifter)) \<and> is_binary64 (y (velocity drifter))
   \<and> velocity_magnitude drifter = 2 powi (- 1074)
   \<and> velocity_magnitude drifter \<noteq> 0
   \<and> \<not> velocity_magnitude ((Player_update viewport ^^ 1) drifter) < velocity_magnitude drifter
   \<and> velocity_magnitude ((Player_update viewport ^^ 1000) drifter) = velocity_magnitude drifter"
proof -
  define t where "t = (2::real) powi (- 1074)"
  have tp: "0 < t" by (simp add: t_def)
  have c0: "is_binary64 (x (velocity cruiser))" "is_binary64 (y (velocity cruiser))"
    by (simp_all add: cruiser_velocity is_binary64_3 is_binary64_0)
  have c1: "velocity_magnitude cruiser = 3"
    by (simp add: velocity_magnitude_def cruiser_velocity Math_hypot_axis)
  have c2: "velocity_magnitude ((Player_update viewport ^^ 1) cruiser)
              = 3343922723322593 / 1125899906842624"
    by (simp add: velocity_magnitude_def Player_update_velocity cruiser_velocity
        friction_step_3 Math_hypot_axis)
  have c3: "velocity_magnitude ((Player_update viewport ^^ 1) cruiser)
              \<noteq> velocity_magnitude cruiser * (99 / 100) ^ 1"
    unfolding c1 c2 by simp
  have d0: "is_binary64 (x (velocity drifter))" "is_binary64 (y (velocity drifter))"
    unfolding drifter_velocity
    by (simp_all only: vec.simps is_binary64_least_subnormal is_binary64_0)
  have d1: "velocity_magnitude drifter = t"
    unfolding velocity_magnitude_def drifter_velocity t_def [symmetric]
    using tp by (simp add: Math_hypot_axis)
  have stay: "((\<lambda>v. binary64_round (v * FRICTION)) ^^ N) t = t" for N
    unfolding t_def by (rule friction_steps_least_subnormal)
  have dv: "velocity drifter = \<lparr>x = t, y = 0\<rparr>"
    unfolding t_def by (rule drifter_velocity)
  have dN: "velocity_magnitude ((Player_update viewport ^^ N) drifter) = t" for N
    using tp
    by (simp add: velocity_magnitude_def Player_updates_velocity dv stay friction_steps_0
        Math_hypot_axis)
  show ?thesis
    using c0 c1 c2 c3 d0 tp unfolding dN d1 by (simp only: t_def [symmetric]) simp
qed

text \<open>
  C7, amended: let the two components of the player's velocity be binary64 numbers. Then
  \<open>N\<close> updates apply to each component, \<open>N\<close> times, the multiplication by \<^verbatim>\<open>FRICTION\<close>
  rounded to binary64; the magnitude of the velocity after \<open>N\<close> updates differs from
  \<open>initialSpeed * 0.99\<^sup>N\<close> by at most \<open>N * (2\<^sup>-\<^sup>1\<^sup>0\<^sup>7\<^sup>4 + initialSpeed / 2\<^sup>5\<^sup>1)\<close>; the magnitude
  never increases from one update to the next, and it strictly decreases as long as it is at
  least \<open>2\<^sup>-\<^sup>1\<^sup>0\<^sup>6\<^sup>7\<close>; and if the initial speed is not zero, the speed after \<open>N\<close> updates is
  not zero.
\<close>

theorem friction_rounded_decay:
  assumes "is_binary64 (x (velocity p))" "is_binary64 (y (velocity p))"
  shows "velocity ((Player_update cv ^^ N) p) =
           \<lparr>x = ((\<lambda>v. binary64_round (v * FRICTION)) ^^ N) (x (velocity p)),
            y = ((\<lambda>v. binary64_round (v * FRICTION)) ^^ N) (y (velocity p))\<rparr>
         \<and> \<bar>velocity_magnitude ((Player_update cv ^^ N) p) - velocity_magnitude p * (99 / 100) ^ N\<bar>
             \<le> of_nat N * (2 powi (- 1074) + velocity_magnitude p / 2 ^ 51)
         \<and> velocity_magnitude ((Player_update cv ^^ Suc N) p)
             \<le> velocity_magnitude ((Player_update cv ^^ N) p)
         \<and> (2 powi (- 1067) \<le> velocity_magnitude ((Player_update cv ^^ N) p) \<longrightarrow>
              velocity_magnitude ((Player_update cv ^^ Suc N) p)
                < velocity_magnitude ((Player_update cv ^^ N) p))
         \<and> (velocity_magnitude p \<noteq> 0 \<longrightarrow> velocity_magnitude ((Player_update cv ^^ N) p) \<noteq> 0)"
  using velocity_magnitude_error [OF assms] velocity_magnitude_decreasing [OF assms]
    velocity_magnitude_strict [OF assms] velocity_magnitude_nonzero [OF assms]
    Player_updates_velocity
  by blast

text \<open>
  The ship starts at speed 5. Two updates later its speed is within \<open>2 * (2\<^sup>-\<^sup>1\<^sup>0\<^sup>7\<^sup>4 + 5 / 2\<^sup>5\<^sup>1)\<close>
  of \<open>5 * 0.99\<^sup>2\<close>, it is not zero, and the third update decreases it.
\<close>

theorem friction_rounded_decay_witness:
  "is_binary64 (x (velocity ship)) \<and> is_binary64 (y (velocity ship))
   \<and> velocity_magnitude ship = 5
   \<and> \<bar>velocity_magnitude ((Player_update viewport ^^ 2) ship) - 5 * (99 / 100) ^ 2\<bar>
       \<le> 2 * (2 powi (- 1074) + 5 / 2 ^ 51)
   \<and> 2 powi (- 1067) \<le> velocity_magnitude ((Player_update viewport ^^ 2) ship)
   \<and> velocity_magnitude ((Player_update viewport ^^ 3) ship)
       < velocity_magnitude ((Player_update viewport ^^ 2) ship)
   \<and> velocity_magnitude ((Player_update viewport ^^ 2) ship) \<noteq> 0"
proof -
  define m where "m = velocity_magnitude ((Player_update viewport ^^ 2) ship)"
  define m' where "m' = velocity_magnitude ((Player_update viewport ^^ Suc 2) ship)"
  define t where "t = (2::real) powi (- 1074)"
  define s where "s = (2::real) powi (- 1067)"
  have b: "is_binary64 (x (velocity ship))" "is_binary64 (y (velocity ship))"
    by (simp_all add: ship_def is_binary64_3 is_binary64_4)
  have v: "velocity_magnitude ship = 5"
    by (simp add: velocity_magnitude_def ship_def Math_hypot_3_4)
  note th = friction_rounded_decay [OF b, where cv = viewport and N = 2, unfolded v,
      folded m_def m'_def t_def s_def]
  have e: "\<bar>m - 5 * (99 / 100) ^ 2\<bar> \<le> of_nat 2 * (t + 5 / 2 ^ 51)"
    using th by blast
  have strict: "s \<le> m \<longrightarrow> m' < m"
    using th by blast
  have "(0::real) \<le> 2 powi (- 1074)" by simp
  then have t0: "0 \<le> t" by (simp only: t_def)
  have "(2::real) powi (- 1074) \<le> 2 powi (- 2)"
    by (rule power_int_increasing) simp_all
  then have t1: "t \<le> 1 / 4" by (simp add: t_def power_int_minus)
  have "(2::real) powi (- 1067) \<le> 2 powi 0"
    by (rule power_int_increasing) simp_all
  then have s1: "s \<le> 1" by (simp add: s_def)
  have e': "\<bar>m - 5 * (99 / 100) ^ 2\<bar> \<le> 2 * (t + 5 / 2 ^ 51)"
    using e by simp
  then have m4: "4 \<le> m"
    using t1 by (simp add: abs_le_iff power2_eq_square)
  with s1 have sm: "s \<le> m" by linarith
  with strict have lt: "m' < m" by blast
  have three: "(3::nat) = Suc 2" by simp
  have nz: "m \<noteq> 0" using m4 by simp
  show ?thesis
    unfolding three m_def [symmetric] m'_def [symmetric] t_def [symmetric] s_def [symmetric]
    using b v e' sm lt nz by blast
qed

end
